theory Spec2Isabelle
  imports Main "HOL-Library.AList"
begin

section \<open>The batch runner of \<^verbatim>\<open>lcb_runner/runner/base_runner.py\<close>\<close>

text \<open>
  A shallow embedding of the class \<^verbatim>\<open>BaseRunner\<close>. Python exceptions are values of
  the type \<open>exn\<close>, returned with \<open>Inl\<close>. The worker \<^verbatim>\<open>_run_single\<close> is abstract in the
  source and calls a remote service, so it is a parameter that takes and returns a state
  \<open>'w\<close> of its own: two calls on the same prompt may answer differently, and a worker
  whose state is a counter counts its own invocations.
\<close>

subsection \<open>Data\<close>

text \<open>
  A prompt is \<^verbatim>\<open>str | list[dict[str, str]]\<close>. A \<^verbatim>\<open>dict[str, str]\<close> is kept as the
  list of its items in insertion order, the order \<^verbatim>\<open>json.dumps\<close> writes them in.
  Python strings are read as lists of characters with code points below 256.
\<close>

type_synonym message = "(string \<times> string) list"

datatype prompt = PStr string | PList "message list"

text \<open>
  The values that travel through \<^verbatim>\<open>outputs\<close> and the cache: a worker result is a
  \<^verbatim>\<open>list[str]\<close>, the placeholder \<^verbatim>\<open>""\<close> and a stored prior output are a \<^verbatim>\<open>str\<close>.
\<close>

datatype pyval = VStr string | VList "string list"

fun len :: "pyval \<Rightarrow> int" where
  "len (VStr s) = int (length s)"
| "len (VList xs) = int (length xs)"

datatype exn =
    UnboundLocalError
  | AssertionError
  | TypeError
  | IndexError
  | FileNotFoundError
  | WorkerException string

datatype Scenario = codegeneration | selfrepair

record Args =
  n :: int
  multiprocess :: int
  use_cache :: bool
  scenario :: Scenario

text \<open>The cache is a Python \<^verbatim>\<open>dict\<close>: items in insertion order, assignment by
  \<^const>\<open>AList.update\<close> (an existing key keeps its place), lookup by \<^const>\<open>map_of\<close>.\<close>

type_synonym cache_dict = "(string \<times> pyval) list"

text \<open>The worker: \<open>Inl d\<close> is an exception raised inside it, with its diagnostic.\<close>

type_synonym 'w worker = "prompt \<Rightarrow> 'w \<Rightarrow> (string + string list) \<times> 'w"

subsection \<open>\<^verbatim>\<open>json.dumps\<close> on a list of string dictionaries\<close>

text \<open>
  The standard encoder with its defaults (\<^verbatim>\<open>ensure_ascii=True\<close>, separators
  \<^verbatim>\<open>", "\<close> and \<^verbatim>\<open>": "\<close>): backslash, double quote and the characters outside
  \<^verbatim>\<open>' '..'~'\<close> are escaped, the rest is copied.
\<close>

definition hex_digit :: "nat \<Rightarrow> char" where
  "hex_digit d = ''0123456789abcdef'' ! (d mod 16)"

definition escape_ascii :: "char \<Rightarrow> string" where
  "escape_ascii c =
     (if c = CHR 0x5C then [CHR 0x5C, CHR 0x5C]
      else if c = CHR 0x22 then [CHR 0x5C, CHR 0x22]
      else if c = CHR 0x08 then [CHR 0x5C, CHR ''b'']
      else if c = CHR 0x0C then [CHR 0x5C, CHR ''f'']
      else if c = CHR 0x0A then [CHR 0x5C, CHR ''n'']
      else if c = CHR 0x0D then [CHR 0x5C, CHR ''r'']
      else if c = CHR 0x09 then [CHR 0x5C, CHR ''t'']
      else if (of_char c :: nat) < 0x20 \<or> 0x7E < (of_char c :: nat) then
        [CHR 0x5C, CHR ''u'', CHR ''0'', CHR ''0'',
         hex_digit (of_char c div 16), hex_digit (of_char c mod 16)]
      else [c])"

definition encode_basestring_ascii :: "string \<Rightarrow> string" where
  "encode_basestring_ascii s = CHR 0x22 # concat (map escape_ascii s) @ [CHR 0x22]"

fun join :: "string \<Rightarrow> string list \<Rightarrow> string" where
  "join sep [] = []"
| "join sep [x] = x"
| "join sep (x # y # ys) = x @ sep @ join sep (y # ys)"

definition dumps_dict :: "message \<Rightarrow> string" where
  "dumps_dict d =
     ''{'' @ join '', ''
       (map (\<lambda>(k, v). encode_basestring_ascii k @ '': '' @ encode_basestring_ascii v) d)
     @ ''}''"

definition json_dumps :: "message list \<Rightarrow> string" where
  "json_dumps ms = ''['' @ join '', '' (map dumps_dict ms) @ '']''"

subsection \<open>\<^verbatim>\<open>run_single\<close>\<close>

text \<open>
  \<^verbatim>\<open>prompt_cache\<close> is bound only under \<^verbatim>\<open>isinstance(prompt, list)\<close>: \<open>None\<close> is the
  unbound local. \<^verbatim>\<open>cache is not None and prompt_cache in cache\<close> reads the local only
  when the cache is there. The lookup yields \<open>Inr (Some v)\<close> for the early return and
  \<open>Inr None\<close> when control falls through to the worker call.
\<close>

fun run_single ::
  "prompt \<times> cache_dict option \<times> Args \<times> 'w worker \<Rightarrow> 'w \<Rightarrow> (exn + pyval) \<times> 'w" where
  "run_single (prompt, cache, args, call_method) w =
     (let prompt_cache = (case prompt of PList ms \<Rightarrow> Some (json_dumps ms) | PStr s \<Rightarrow> None) in
      case (case cache of
              None \<Rightarrow> Inr None
            | Some c \<Rightarrow>
                (case prompt_cache of
                   None \<Rightarrow> Inl UnboundLocalError
                 | Some k \<Rightarrow>
                     (case map_of c k of
                        None \<Rightarrow> Inr None
                      | Some v \<Rightarrow> if len v = n args then Inr (Some v) else Inr None))) of
        Inl e \<Rightarrow> (Inl e, w)
      | Inr (Some v) \<Rightarrow> (Inr v, w)
      | Inr None \<Rightarrow>
          (case call_method prompt w of
             (Inl d, w') \<Rightarrow> (Inl (WorkerException d), w')
           | (Inr result, w') \<Rightarrow>
               if int (length result) = n args then (Inr (VList result), w')
               else (Inl AssertionError, w')))"

subsection \<open>The worker pool\<close>

text \<open>
  What the pool hands back for one task: \<^verbatim>\<open>output.is_success()\<close> with
  \<^verbatim>\<open>output.result\<close>, or the failure with its status and traceback.
\<close>

datatype outcome = Success pyval | Failure exn

text \<open>
  Modelled from the spec: \<^verbatim>\<open>run_tasks_in_parallel\<close> of
  \<^verbatim>\<open>lcb_runner/utils/multiprocess.py\<close> is not among the source files. The specification
  gives its contract: an ordered sequence of outcomes, matching the input task order one
  to one, where a task that raises is captured as a failure carrying its diagnostic and
  the other tasks still run. The worker's state is threaded through the tasks in input
  order; the number of pool workers does not enter the result.
\<close>

fun capture :: "exn + pyval \<Rightarrow> outcome" where
  "capture (Inl e) = Failure e"
| "capture (Inr v) = Success v"

fun run_tasks_in_parallel ::
  "('x \<Rightarrow> 'w \<Rightarrow> (exn + pyval) \<times> 'w) \<Rightarrow> 'x list \<Rightarrow> int \<Rightarrow> 'w \<Rightarrow> outcome list \<times> 'w" where
  "run_tasks_in_parallel func [] num_workers w = ([], w)"
| "run_tasks_in_parallel func (task # tasks) num_workers w =
     (case func task w of
        (r, w') \<Rightarrow>
          (case run_tasks_in_parallel func tasks num_workers w' of
             (outs, w'') \<Rightarrow> (capture r # outs, w'')))"

subsection \<open>\<^verbatim>\<open>run_batch\<close>\<close>

text \<open>The list comprehension of the sequential branch: the first exception leaves it.\<close>

fun run_sequential ::
  "(prompt \<times> cache_dict option \<times> Args \<times> 'w worker) list \<Rightarrow> 'w \<Rightarrow> (exn + pyval list) \<times> 'w" where
  "run_sequential [] w = (Inr [], w)"
| "run_sequential (argument # arguments) w =
     (case run_single argument w of
        (Inl e, w') \<Rightarrow> (Inl e, w')
      | (Inr v, w') \<Rightarrow>
          (case run_sequential arguments w' of
             (Inl e, w'') \<Rightarrow> (Inl e, w'')
           | (Inr vs, w'') \<Rightarrow> (Inr (v # vs), w'')))"

text \<open>
  The loop over \<^verbatim>\<open>parallel_outputs\<close>: \<^verbatim>\<open>outputs.append(output.result)\<close> on success,
  on failure the three \<^verbatim>\<open>print\<close> calls (kept as the list of the diagnostics printed) and
  \<^verbatim>\<open>outputs.extend([""] * self.args.n)\<close>.
\<close>

fun collect_outputs ::
  "int \<Rightarrow> outcome list \<Rightarrow> pyval list \<Rightarrow> exn list \<Rightarrow> pyval list \<times> exn list" where
  "collect_outputs k [] outputs printed = (outputs, printed)"
| "collect_outputs k (output # rest) outputs printed =
     (case output of
        Success result \<Rightarrow> collect_outputs k rest (outputs @ [result]) printed
      | Failure e \<Rightarrow>
          collect_outputs k rest (outputs @ replicate (nat k) (VStr [])) (printed @ [e]))"

text \<open>
  The loop \<^verbatim>\<open>for prompt, output in zip(prompts, outputs)\<close>. The local
  \<^verbatim>\<open>prompt_cache\<close> lives across the iterations: it is rebound for a list prompt and
  keeps its last value (or stays unbound, \<open>None\<close>) for a string prompt. Assigning into a
  cache that is \<^verbatim>\<open>None\<close> is a \<^verbatim>\<open>TypeError\<close>.
\<close>

fun update_cache ::
  "string option \<Rightarrow> (prompt \<times> pyval) list \<Rightarrow> cache_dict option \<Rightarrow> exn option \<times> cache_dict option" where
  "update_cache prompt_cache [] c = (None, c)"
| "update_cache prompt_cache ((prompt, output) # rest) c =
     (let prompt_cache' =
            (case prompt of PList ms \<Rightarrow> Some (json_dumps ms) | PStr s \<Rightarrow> prompt_cache) in
      case prompt_cache' of
        None \<Rightarrow> (Some UnboundLocalError, c)
      | Some k \<Rightarrow>
          (case c of
             None \<Rightarrow> (Some TypeError, c)
           | Some d \<Rightarrow> update_cache prompt_cache' rest (Some (AList.update k output d))))"

record LanguageModel =
  model_repr :: string
  model_style :: string

record BaseRunner =
  args :: Args
  model :: LanguageModel
  cache :: "cache_dict option"

text \<open>
  The persisted cache file: \<open>None\<close> when no file exists at the cache path, \<open>Some x\<close>
  when the file holds the JSON of \<open>x\<close>.
\<close>

type_synonym disk = "cache_dict option option"

definition init :: "Args \<Rightarrow> LanguageModel \<Rightarrow> disk \<Rightarrow> BaseRunner" where
  "init a m d =
     (if use_cache a then
        (case d of
           Some stored \<Rightarrow> \<lparr>args = a, model = m, cache = stored\<rparr>
         | None \<Rightarrow> \<lparr>args = a, model = m, cache = Some []\<rparr>)
      else \<lparr>args = a, model = m, cache = None\<rparr>)"

definition save_cache :: "BaseRunner \<Rightarrow> disk \<Rightarrow> disk" where
  "save_cache self d = (if use_cache (args self) then Some (cache self) else d)"

text \<open>
  \<^verbatim>\<open>run_batch\<close> returns its value or exception, the runner (whose cache it assigns
  into), the worker's state and what it printed.
\<close>

definition run_batch ::
  "BaseRunner \<Rightarrow> 'w worker \<Rightarrow> prompt list \<Rightarrow> 'w \<Rightarrow>
     (exn + pyval list) \<times> BaseRunner \<times> 'w \<times> exn list" where
  "run_batch self call_method prompts w =
     (let arguments = map (\<lambda>prompt. (prompt, cache self, args self, call_method)) prompts in
      case (if multiprocess (args self) > 1 then
              (case run_tasks_in_parallel run_single arguments (multiprocess (args self)) w of
                 (parallel_outputs, w') \<Rightarrow>
                   (case collect_outputs (n (args self)) parallel_outputs [] [] of
                      (outputs, printed) \<Rightarrow> (Inr outputs, w', printed)))
            else (case run_sequential arguments w of (r, w') \<Rightarrow> (r, w', []))) of
        (Inl e, w', printed) \<Rightarrow> (Inl e, self, w', printed)
      | (Inr outputs, w', printed) \<Rightarrow>
          if use_cache (args self) then
            (case update_cache None (zip prompts outputs) (cache self) of
               (Some e, c') \<Rightarrow> (Inl e, self\<lparr>cache := c'\<rparr>, w', printed)
             | (None, c') \<Rightarrow> (Inr outputs, self\<lparr>cache := c'\<rparr>, w', printed))
          else (Inr outputs, self, w', printed))"

subsection \<open>\<^verbatim>\<open>run_main\<close>\<close>

text \<open>One record of the graded file that the self-repair scenario replays.\<close>

record ('g, 'm) check =
  question_content :: string
  code_list :: "string list"
  output_list :: "string list"
  graded_list :: "'g list"
  metadata :: "'m list"

text \<open>
  \<^verbatim>\<open>format_prompt\<close> is the caller's: it is called with a problem and the model style,
  or, in the self-repair scenario, with the question, the style, a code, its grade and
  its metadata.
\<close>

datatype ('b, 'g, 'm) format_args =
    Problem 'b string
  | Repair string string string 'g 'm

fun is_list :: "prompt \<Rightarrow> bool" where
  "is_list (PList ms) = True"
| "is_list (PStr s) = False"

text \<open>
  The loop \<^verbatim>\<open>for i in range(len(checked_base_codes))\<close>, over the list of its indices.
  Reading a list past its end is an \<^verbatim>\<open>IndexError\<close>; an exception of the worker
  leaves the loop.
\<close>

fun repair_attempts ::
  "BaseRunner \<Rightarrow> 'w worker \<Rightarrow> (('b, 'g, 'm) format_args \<Rightarrow> prompt) \<Rightarrow> ('g, 'm) check \<Rightarrow>
     nat list \<Rightarrow> pyval list \<Rightarrow> 'w \<Rightarrow> (exn + pyval list) \<times> 'w" where
  "repair_attempts self call_method format_prompt chk [] output w = (Inr output, w)"
| "repair_attempts self call_method format_prompt chk (i # is) output w =
     (if length (code_list chk) \<le> i \<or> length (graded_list chk) \<le> i
         \<or> length (metadata chk) \<le> i then (Inl IndexError, w)
      else
        let prompt =
              format_prompt
                (Repair (question_content chk) (model_style (model self))
                   (code_list chk ! i) (graded_list chk ! i) (metadata chk ! i)) in
        if prompt = PStr [] \<or> \<not> is_list prompt then
          (if length (output_list chk) \<le> i then (Inl IndexError, w)
           else repair_attempts self call_method format_prompt chk is
                  (output @ [VStr (output_list chk ! i)]) w)
        else
          (case call_method prompt w of
             (Inl d, w') \<Rightarrow> (Inl (WorkerException d), w')
           | (Inr result, w') \<Rightarrow>
               repair_attempts self call_method format_prompt chk is
                 (output @ [VList result]) w'))"

text \<open>The loop \<^verbatim>\<open>for check in tqdm(check_metadata)\<close>.\<close>

fun repair_checks ::
  "BaseRunner \<Rightarrow> 'w worker \<Rightarrow> (('b, 'g, 'm) format_args \<Rightarrow> prompt) \<Rightarrow> ('g, 'm) check list \<Rightarrow>
     pyval list list \<Rightarrow> 'w \<Rightarrow> (exn + pyval list list) \<times> 'w" where
  "repair_checks self call_method format_prompt [] outputs w = (Inr outputs, w)"
| "repair_checks self call_method format_prompt (chk # rest) outputs w =
     (case repair_attempts self call_method format_prompt chk
             [0 ..< length (code_list chk)] [] w of
        (Inl e, w') \<Rightarrow> (Inl e, w')
      | (Inr output, w') \<Rightarrow>
          repair_checks self call_method format_prompt rest (outputs @ [output]) w')"

datatype main_result = Repaired "pyval list list" | Outputs "pyval list"

text \<open>
  \<^verbatim>\<open>run_main\<close>. The graded file of the self-repair scenario is \<open>check_file\<close>, \<open>None\<close>
  when it does not exist. The result carries the runner, the worker's state, the
  persisted cache file and what was printed.
\<close>

definition run_main ::
  "BaseRunner \<Rightarrow> 'w worker \<Rightarrow> (('b, 'g, 'm) format_args \<Rightarrow> prompt) \<Rightarrow> 'b list \<Rightarrow>
     ('g, 'm) check list option \<Rightarrow> 'w \<Rightarrow> disk \<Rightarrow>
     (exn + main_result) \<times> BaseRunner \<times> 'w \<times> disk \<times> exn list" where
  "run_main self call_method format_prompt benchmark check_file w d =
     (if scenario (args self) = selfrepair then
        (case check_file of
           None \<Rightarrow> (Inl FileNotFoundError, self, w, d, [])
         | Some check_metadata \<Rightarrow>
             (case repair_checks self call_method format_prompt check_metadata [] w of
                (Inl e, w') \<Rightarrow> (Inl e, self, w', d, [])
              | (Inr outputs, w') \<Rightarrow> (Inr (Repaired outputs), self, w', d, [])))
      else
        (let prompts =
               map (\<lambda>problem. format_prompt (Problem problem (model_style (model self))))
                 benchmark in
         case run_batch self call_method prompts w of
           (Inl e, self', w', printed) \<Rightarrow> (Inl e, self', w', d, printed)
         | (Inr outputs, self', w', printed) \<Rightarrow>
             (Inr (Outputs outputs), self', w', save_cache self' d, printed)))"

text \<open>
  The repair prompt that the self-repair scenario builds for attempt \<open>i\<close> of a record, and
  the structured repair prompts of a graded file, in the order of its records and of their
  attempts.
\<close>

definition repair_prompt ::
  "BaseRunner \<Rightarrow> (('b, 'g, 'm) format_args \<Rightarrow> prompt) \<Rightarrow> ('g, 'm) check \<Rightarrow> nat \<Rightarrow> prompt" where
  "repair_prompt self format_prompt chk i =
     format_prompt
       (Repair (question_content chk) (model_style (model self))
          (code_list chk ! i) (graded_list chk ! i) (metadata chk ! i))"

definition repair_prompts ::
  "BaseRunner \<Rightarrow> (('b, 'g, 'm) format_args \<Rightarrow> prompt) \<Rightarrow> ('g, 'm) check list \<Rightarrow> prompt list" where
  "repair_prompts self format_prompt checks =
     concat (map (\<lambda>chk. filter is_list
                           (map (repair_prompt self format_prompt chk)
                              [0 ..< length (code_list chk)])) checks)"

text \<open>
  The worker's state when attempt \<open>i\<close> of record \<open>k\<close> is reached: the worker has been
  called, one call after the other, on the structured repair prompts of the records
  before \<open>k\<close> and of the attempts before \<open>i\<close> of record \<open>k\<close>.
\<close>

definition attempt_state ::
  "BaseRunner \<Rightarrow> 'w worker \<Rightarrow> (('b, 'g, 'm) format_args \<Rightarrow> prompt) \<Rightarrow>
     ('g, 'm) check list \<Rightarrow> 'w \<Rightarrow> nat \<Rightarrow> nat \<Rightarrow> 'w" where
  "attempt_state self call_method format_prompt checks w k i =
     fold (\<lambda>p s. snd (call_method p s))
       (repair_prompts self format_prompt (take k checks)
        @ filter is_list (map (repair_prompt self format_prompt (checks ! k)) [0 ..< i])) w"

subsection \<open>The tasks of a batch, one by one\<close>

text \<open>
  The worker's state when the \<open>i\<close>-th task of a batch starts, after the tasks before it
  have run, and what \<^verbatim>\<open>run_single\<close> yields for the \<open>i\<close>-th task there.
\<close>

definition task_state ::
  "BaseRunner \<Rightarrow> 'w worker \<Rightarrow> prompt list \<Rightarrow> 'w \<Rightarrow> nat \<Rightarrow> 'w" where
  "task_state self call_method prompts w i =
     fold (\<lambda>prompt s. snd (run_single (prompt, cache self, args self, call_method) s))
       (take i prompts) w"

definition task_outcome ::
  "BaseRunner \<Rightarrow> 'w worker \<Rightarrow> prompt list \<Rightarrow> 'w \<Rightarrow> nat \<Rightarrow> exn + pyval" where
  "task_outcome self call_method prompts w i =
     fst (run_single (prompts ! i, cache self, args self, call_method)
            (task_state self call_method prompts w i))"

text \<open>What the tasks of a batch yield, in input order.\<close>

definition batch_outcomes ::
  "BaseRunner \<Rightarrow> 'w worker \<Rightarrow> prompt list \<Rightarrow> 'w \<Rightarrow> (exn + pyval) list" where
  "batch_outcomes self call_method prompts w =
     map (task_outcome self call_method prompts w) [0 ..< length prompts]"

subsection \<open>Example inputs\<close>

definition messages_A :: "message list" where
  "messages_A = [[(''role'', ''user''), (''content'', ''A'')]]"

definition messages_B :: "message list" where
  "messages_B = [[(''role'', ''user''), (''content'', ''B'')]]"

definition task_A :: prompt where
  "task_A = PList messages_A"

definition task_B :: prompt where
  "task_B = PList messages_B"

text \<open>Workers whose state counts their invocations.\<close>

definition x_worker :: "nat worker" where
  "x_worker prompt k = (Inr [''x1'', ''x2''], Suc k)"

definition short_worker :: "nat worker" where
  "short_worker prompt k = (Inr [''x1''], Suc k)"

definition raising_worker :: "nat worker" where
  "raising_worker prompt k = (Inl ''boom'', Suc k)"

definition raising_on_A :: "nat worker" where
  "raising_on_A prompt k =
     (if prompt = task_A then (Inl ''boom'', Suc k) else (Inr [''x1'', ''x2''], Suc k))"

definition sampling_worker :: "nat worker" where
  "sampling_worker prompt k =
     (if k = 0 then (Inr [''x1'', ''x2''], Suc k) else (Inr [''y1'', ''y2''], Suc k))"

definition problem_prompt :: "(prompt, 'g, 'm) format_args \<Rightarrow> prompt" where
  "problem_prompt fa = (case fa of Problem p style \<Rightarrow> p | Repair q style c g m \<Rightarrow> PStr [])"

definition example_args :: "int \<Rightarrow> bool \<Rightarrow> Args" where
  "example_args mp uc = \<lparr>n = 2, multiprocess = mp, use_cache = uc, scenario = codegeneration\<rparr>"

definition example_model :: LanguageModel where
  "example_model = \<lparr>model_repr = ''m'', model_style = ''s''\<rparr>"

definition example_runner :: "int \<Rightarrow> bool \<Rightarrow> disk \<Rightarrow> BaseRunner" where
  "example_runner mp uc d = init (example_args mp uc) example_model d"

text \<open>
  A graded record with three attempts, the second of which passed, and a prompt builder
  that has nothing to repair for an attempt that passed.
\<close>

definition example_check :: "(bool, string) check" where
  "example_check =
     \<lparr>question_content = ''q'', code_list = [''c0'', ''c1'', ''c2''],
      output_list = [''o0'', ''o1'', ''o2''], graded_list = [False, True, False],
      metadata = [''m0'', ''m1'', ''m2'']\<rparr>"

definition repair_format :: "(prompt, bool, string) format_args \<Rightarrow> prompt" where
  "repair_format fa =
     (case fa of
        Problem p style \<Rightarrow> p
      | Repair q style c g m \<Rightarrow> if g then PStr [] else task_A)"

section \<open>Lemmas about the loops\<close>

lemma pool_length: "length (fst (run_tasks_in_parallel f xs k w)) = length xs"
  by (induction xs arbitrary: w) (simp_all add: case_prod_beta)

lemma pool_state: "snd (run_tasks_in_parallel f xs k w) = fold (\<lambda>x s. snd (f x s)) xs w"
  by (induction xs arbitrary: w) (simp_all add: case_prod_beta)

lemma pool_nth:
  "i < length xs \<Longrightarrow>
   fst (run_tasks_in_parallel f xs k w) ! i =
     capture (fst (f (xs ! i) (fold (\<lambda>x s. snd (f x s)) (take i xs) w)))"
proof (induction xs arbitrary: w i)
  case Nil
  then show ?case by simp
next
  case (Cons x xs)
  show ?case
  proof (cases i)
    case 0
    then show ?thesis by (simp add: case_prod_beta)
  next
    case (Suc j)
    with Cons.prems have "j < length xs" by simp
    from Cons.IH[OF this, of "snd (f x w)"] Suc show ?thesis
      by (simp add: case_prod_beta)
  qed
qed

lemma fold_arguments:
  "fold (\<lambda>x s. snd (run_single x s)) (take i (map (\<lambda>prompt. (prompt, c, a, cm)) prompts)) w =
   fold (\<lambda>prompt s. snd (run_single (prompt, c, a, cm) s)) (take i prompts) w"
  by (simp add: take_map fold_map comp_def)

lemma pool_outcomes:
  "fst (run_tasks_in_parallel run_single
          (map (\<lambda>prompt. (prompt, cache self, args self, cm)) prompts) k w) =
   map capture (batch_outcomes self cm prompts w)"
  by (rule nth_equalityI)
     (simp_all add: pool_length pool_nth batch_outcomes_def task_outcome_def task_state_def
        fold_arguments del: run_single.simps)

lemma pool_final_state:
  "snd (run_tasks_in_parallel run_single
          (map (\<lambda>prompt. (prompt, cache self, args self, cm)) prompts) k w) =
   task_state self cm prompts w (length prompts)"
  by (simp add: pool_state task_state_def fold_map comp_def del: run_single.simps)

lemma collect_outputs_acc:
  "collect_outputs k os outs pr =
     (outs @ fst (collect_outputs k os [] []), pr @ snd (collect_outputs k os [] []))"
proof (induction os arbitrary: outs pr)
  case Nil
  then show ?case by simp
next
  case (Cons oc os)
  show ?case
  proof (cases oc)
    case (Success r)
    then show ?thesis
      using Cons.IH[of "outs @ [r]" pr] Cons.IH[of "[r]" "[]"] by simp
  next
    case (Failure e)
    then show ?thesis
      using Cons.IH[of "outs @ replicate (nat k) (VStr [])" "pr @ [e]"]
            Cons.IH[of "replicate (nat k) (VStr [])" "[e]"] by simp
  qed
qed

lemma collect_outputs_Success:
  "collect_outputs k (Success r # os) [] [] =
     (r # fst (collect_outputs k os [] []), snd (collect_outputs k os [] []))"
  using collect_outputs_acc[of k os "[r]" "[]"] by simp

lemma collect_outputs_Failure:
  "collect_outputs k (Failure e # os) [] [] =
     (replicate (nat k) (VStr []) @ fst (collect_outputs k os [] []),
      e # snd (collect_outputs k os [] []))"
  using collect_outputs_acc[of k os "replicate (nat k) (VStr [])" "[e]"] by simp

lemma collect_outputs_all_success:
  "collect_outputs k (map Success vs) [] [] = (vs, [])"
  by (induction vs) (simp_all add: collect_outputs_Success del: collect_outputs.simps(2))

lemma collect_outputs_printed:
  "snd (collect_outputs k os [] []) = [e. Failure e \<leftarrow> os]"
proof (induction os)
  case Nil
  then show ?case by simp
next
  case (Cons oc os)
  then show ?case
    by (cases oc)
       (simp_all add: collect_outputs_Success collect_outputs_Failure
          del: collect_outputs.simps(2))
qed

lemma collect_outputs_length:
  "1 \<le> k \<Longrightarrow> length os \<le> length (fst (collect_outputs k os [] []))"
proof (induction os)
  case Nil
  then show ?case by simp
next
  case (Cons oc os)
  then show ?case
    by (cases oc)
       (simp_all add: collect_outputs_Success collect_outputs_Failure
          del: collect_outputs.simps(2))
qed

lemma sequential_pool:
  "run_tasks_in_parallel run_single xs k w = (map Success vs, w') \<Longrightarrow>
   run_sequential xs w = (Inr vs, w')"
proof (induction xs arbitrary: vs w)
  case Nil
  then show ?case by simp
next
  case (Cons x xs)
  obtain r w1 where r: "run_single x w = (r, w1)" by (cases "run_single x w")
  obtain os w2 where os: "run_tasks_in_parallel run_single xs k w1 = (os, w2)"
    by (cases "run_tasks_in_parallel run_single xs k w1")
  from Cons.prems r os have eq: "capture r # os = map Success vs" and w2: "w2 = w'"
    by simp_all
  then obtain v vs' where vs: "vs = v # vs'" "capture r = Success v" "os = map Success vs'"
    by (cases vs) auto
  from vs(2) have rv: "r = Inr v" by (cases r) simp_all
  from Cons.IH[of w1 vs'] os vs(3) w2 have "run_sequential xs w1 = (Inr vs', w')" by simp
  with r rv vs(1) show ?case by simp
qed

lemma sequential_failure:
  "i < length xs \<Longrightarrow>
   fst (run_tasks_in_parallel run_single xs k w) ! i = Failure e \<Longrightarrow>
   \<exists>e' w'. run_sequential xs w = (Inl e', w')"
proof (induction xs arbitrary: i w)
  case Nil
  then show ?case by simp
next
  case (Cons x xs)
  obtain r w1 where r: "run_single x w = (r, w1)" by (cases "run_single x w")
  show ?case
  proof (cases r)
    case (Inl e0)
    with r show ?thesis by simp
  next
    case (Inr v)
    with Cons.prems r obtain j where j: "i = Suc j" by (cases i) (auto simp: case_prod_beta)
    with Cons.prems r have "j < length xs"
      and "fst (run_tasks_in_parallel run_single xs k w1) ! j = Failure e"
      by (simp_all add: case_prod_beta)
    from Cons.IH[OF this] obtain e' w' where "run_sequential xs w1 = (Inl e', w')" by blast
    with r Inr show ?thesis by simp
  qed
qed

lemma update_cache_lists:
  "update_cache pc (zip (map PList mss) outs) (Some cd) =
     (None, Some (AList.updates (map json_dumps mss) outs cd))"
proof (induction mss arbitrary: pc outs cd)
  case Nil
  then show ?case by simp
next
  case (Cons ms mss)
  then show ?case by (cases outs) simp_all
qed

lemma map_upds_last:
  "length ks = length vs \<Longrightarrow> i < length ks \<Longrightarrow>
   (\<forall>j. i < j \<and> j < length ks \<longrightarrow> ks ! j \<noteq> ks ! i) \<Longrightarrow>
   (m(ks [\<mapsto>] vs)) (ks ! i) = Some (vs ! i)"
proof (induction ks vs arbitrary: m i rule: list_induct2)
  case Nil
  then show ?case by simp
next
  case (Cons k ks v vs)
  show ?case
  proof (cases i)
    case 0
    with Cons.prems have "k \<notin> set ks" by (auto simp: in_set_conv_nth)
    with 0 show ?thesis by simp
  next
    case (Suc j)
    with Cons.prems have "j < length ks"
      and "\<forall>j'. j < j' \<and> j' < length ks \<longrightarrow> ks ! j' \<noteq> ks ! j" by auto
    from Cons.IH[OF this, of "m(k \<mapsto> v)"] Suc show ?thesis
      by (simp del: fun_upd_apply)
  qed
qed

section \<open>The single-task invocation\<close>

text \<open>
  Claim C5. Whenever \<^verbatim>\<open>run_single\<close> returns normally, the value it returns has length
  exactly \<open>N\<close>: a cached value is returned only after \<^verbatim>\<open>len(cache[prompt_cache]) == args.n\<close>
  held, and when the worker is called (the cache is disabled, or holds no entry of length
  \<open>N\<close> for the prompt) and returns a result of any other length, the \<^verbatim>\<open>assert\<close> fails
  and \<^verbatim>\<open>run_single\<close> raises \<^verbatim>\<open>AssertionError\<close> instead of returning.
\<close>

theorem run_single_length:
  "(run_single (p, c, a, cm) w = (Inr v, w') \<longrightarrow> len v = n a) \<and>
   ((c = None \<or> (\<exists>cd ms. c = Some cd \<and> p = PList ms \<and>
        (\<forall>u. map_of cd (json_dumps ms) = Some u \<longrightarrow> len u \<noteq> n a)))
      \<longrightarrow> cm p w = (Inr r, w1) \<longrightarrow> int (length r) \<noteq> n a
      \<longrightarrow> run_single (p, c, a, cm) w = (Inl AssertionError, w1))"
  by (auto split: option.splits prompt.splits sum.splits prod.splits if_splits)

theorem run_single_length_witness:
  "run_single (task_A, None, example_args 1 False, x_worker) 0 = (Inr (VList [''x1'', ''x2'']), 1)
   \<and> len (VList [''x1'', ''x2'']) = n (example_args 1 False)
   \<and> short_worker task_A 0 = (Inr [''x1''], 1)
   \<and> int (length [''x1'']) \<noteq> n (example_args 1 False)
   \<and> run_single (task_A, None, example_args 1 False, short_worker) 0 = (Inl AssertionError, 1)"
  using run_single_length[of task_A None "example_args 1 False" x_worker 0
          "VList [''x1'', ''x2'']" 1 "[''x1'', ''x2'']" 1]
        run_single_length[of task_A None "example_args 1 False" short_worker 0
          "VList [''x1'']" 1 "[''x1'']" 1]
  by (simp add: x_worker_def short_worker_def example_args_def)

text \<open>
  The cache lookup of \<^verbatim>\<open>run_single\<close> for a structured task: the stored value is returned,
  without a call of the worker, when an entry is present under the task's serialization
  and its length equals \<open>N\<close>; with an absent entry or an entry of another length
  \<^verbatim>\<open>run_single\<close> behaves as it does with the cache disabled.
\<close>

lemma structured_lookup:
  "(map_of cd (json_dumps ms) = Some v \<and> len v = n a \<longrightarrow>
      run_single (PList ms, Some cd, a, cm) w = (Inr v, w)) \<and>
   (\<not> (\<exists>v. map_of cd (json_dumps ms) = Some v \<and> len v = n a) \<longrightarrow>
      run_single (PList ms, Some cd, a, cm) w = run_single (PList ms, None, a, cm) w) \<and>
   run_single (p, None, a, cm) w =
     (case cm p w of
        (Inl d, w') \<Rightarrow> (Inl (WorkerException d), w')
      | (Inr result, w') \<Rightarrow>
          if int (length result) = n a then (Inr (VList result), w')
          else (Inl AssertionError, w'))"
  by (auto split: option.splits prompt.splits sum.splits prod.splits if_splits)

text \<open>
  Claim C6, at a failing input. The claim is about the lookup for every task; a
  plain-text task is a legal prompt (\<^verbatim>\<open>prompt: str | list[dict[str, str]]\<close>) and its
  fingerprint is its text. For the prompt \<^verbatim>\<open>"A"\<close> with \<open>N = 2\<close>, \<^verbatim>\<open>run_single\<close> raises
  \<^verbatim>\<open>UnboundLocalError\<close> at the lookup and leaves the worker's counter at 0, whether the
  cache holds under \<^verbatim>\<open>"A"\<close> an entry of length 1 (which the claim treats as a miss, the
  worker being invoked), an entry of length 2 (which the claim returns) or no entry.
\<close>

theorem plain_text_lookup_raises:
  "n (example_args 1 True) = 2
   \<and> len (VList [''c1'']) = 1
   \<and> run_single (PStr ''A'', Some [(''A'', VList [''c1''])], example_args 1 True, x_worker) 0 =
       (Inl UnboundLocalError, 0)
   \<and> run_single (PStr ''A'', Some [(''A'', VList [''c1'', ''c2''])], example_args 1 True,
         x_worker) 0 = (Inl UnboundLocalError, 0)
   \<and> run_single (PStr ''A'', Some [], example_args 1 True, x_worker) 0 =
       (Inl UnboundLocalError, 0)"
  by (simp add: example_args_def)

text \<open>
  Claim C9. \<^verbatim>\<open>run_single\<close> binds \<^verbatim>\<open>prompt_cache\<close> only for a list prompt. When the
  prompt is a list or the cache is \<^verbatim>\<open>None\<close>, \<^verbatim>\<open>run_single\<close> never raises
  \<^verbatim>\<open>UnboundLocalError\<close>: it is the cache lookup followed, on a miss, by the worker call
  and the length assertion. For every string prompt with a cache,
  \<^verbatim>\<open>run_single\<close> raises \<^verbatim>\<open>UnboundLocalError\<close> and leaves the worker's state as it was,
  whatever the worker: the worker is not invoked.
\<close>

theorem prompt_cache_unbound:
  "(is_list p \<or> c = None \<longrightarrow>
      run_single (p, c, a, cm) w =
        (case (case c of
                 None \<Rightarrow> None
               | Some cd \<Rightarrow>
                   (case p of
                      PList ms \<Rightarrow>
                        (case map_of cd (json_dumps ms) of
                           None \<Rightarrow> None
                         | Some v \<Rightarrow> if len v = n a then Some v else None)
                    | PStr s \<Rightarrow> None)) of
           Some v \<Rightarrow> (Inr v, w)
         | None \<Rightarrow>
             (case cm p w of
                (Inl d, w') \<Rightarrow> (Inl (WorkerException d), w')
              | (Inr result, w') \<Rightarrow>
                  if int (length result) = n a then (Inr (VList result), w')
                  else (Inl AssertionError, w')))
      \<and> fst (run_single (p, c, a, cm) w) \<noteq> Inl UnboundLocalError) \<and>
   run_single (PStr s, Some cd, a, cm) w = (Inl UnboundLocalError, w)"
  by (cases p) (auto split: option.splits prompt.splits sum.splits prod.splits if_splits)

theorem prompt_cache_unbound_witness:
  "is_list task_A
   \<and> run_single (task_A, Some [], example_args 1 True, x_worker) 0 =
       (Inr (VList [''x1'', ''x2'']), 1)
   \<and> run_single (PStr ''A'', None, example_args 1 False, x_worker) 0 =
       (Inr (VList [''x1'', ''x2'']), 1)
   \<and> run_single (PStr ''A'', Some [], example_args 1 True, x_worker) 0 =
       (Inl UnboundLocalError, 0)"
  using prompt_cache_unbound[of task_A "Some []" "example_args 1 True" x_worker 0 "''A''" "[]"]
        prompt_cache_unbound[of "PStr ''A''" None "example_args 1 False" x_worker 0 "''A''" "[]"]
  by (simp add: task_A_def x_worker_def example_args_def)

section \<open>Lemmas about \<^verbatim>\<open>run_batch\<close>\<close>


declare run_single.simps [simp del]

lemma failures_of_captured: "[e. Failure e \<leftarrow> map capture rs] = [e. Inl e \<leftarrow> rs]"
proof (induction rs)
  case Nil
  then show ?case by simp
next
  case (Cons r rs)
  then show ?case by (cases r) simp_all
qed

lemma run_batch_parallel:
  assumes "1 < multiprocess (args self)"
  shows "run_batch self cm prompts w =
    (if use_cache (args self) then
       (case update_cache None
               (zip prompts
                  (fst (collect_outputs (n (args self))
                          (map capture (batch_outcomes self cm prompts w)) [] [])))
               (cache self) of
          (Some e, c') \<Rightarrow>
            (Inl e, self\<lparr>cache := c'\<rparr>, task_state self cm prompts w (length prompts),
             [e. Inl e \<leftarrow> batch_outcomes self cm prompts w])
        | (None, c') \<Rightarrow>
            (Inr (fst (collect_outputs (n (args self))
                         (map capture (batch_outcomes self cm prompts w)) [] [])),
             self\<lparr>cache := c'\<rparr>, task_state self cm prompts w (length prompts),
             [e. Inl e \<leftarrow> batch_outcomes self cm prompts w]))
     else
       (Inr (fst (collect_outputs (n (args self))
                    (map capture (batch_outcomes self cm prompts w)) [] [])),
        self, task_state self cm prompts w (length prompts),
        [e. Inl e \<leftarrow> batch_outcomes self cm prompts w]))"
proof -
  let ?xs = "map (\<lambda>prompt. (prompt, cache self, args self, cm)) prompts"
  let ?k = "multiprocess (args self)"
  let ?os = "map capture (batch_outcomes self cm prompts w)"
  define outs where "outs = fst (collect_outputs (n (args self)) ?os [] [])"
  define pr where "pr = [e. Inl e \<leftarrow> batch_outcomes self cm prompts w]"
  have p: "run_tasks_in_parallel run_single ?xs ?k w =
             (?os, task_state self cm prompts w (length prompts))"
    by (rule prod_eqI) (simp_all only: fst_conv snd_conv pool_outcomes pool_final_state)
  have c: "collect_outputs (n (args self)) ?os [] [] = (outs, pr)"
    unfolding outs_def pr_def
    by (rule prod_eqI)
       (simp_all only: fst_conv snd_conv collect_outputs_printed failures_of_captured)
  show ?thesis
    unfolding run_batch_def Let_def outs_def[symmetric] pr_def[symmetric] using assms
    by (simp only: p c if_True prod.case sum.case)
qed

lemma sequential_first_failure:
  "i < length xs \<Longrightarrow>
   fst (run_single (xs ! i) (fold (\<lambda>x s. snd (run_single x s)) (take i xs) w)) = Inl e \<Longrightarrow>
   (\<forall>j<i. \<exists>v. fst (run_single (xs ! j) (fold (\<lambda>x s. snd (run_single x s)) (take j xs) w)) = Inr v) \<Longrightarrow>
   run_sequential xs w = (Inl e, fold (\<lambda>x s. snd (run_single x s)) (take (Suc i) xs) w)"
proof (induction xs arbitrary: i w)
  case Nil
  then show ?case by simp
next
  case (Cons x xs)
  obtain r w1 where r: "run_single x w = (r, w1)" by (cases "run_single x w")
  show ?case
  proof (cases i)
    case 0
    with Cons.prems r show ?thesis by simp
  next
    case (Suc j)
    from Cons.prems(3) Suc have "\<exists>v. fst (run_single x w) = Inr v" by fastforce
    with r obtain v where v: "r = Inr v" by auto
    from Cons.prems Suc r have a: "j < length xs"
      and b: "fst (run_single (xs ! j) (fold (\<lambda>x s. snd (run_single x s)) (take j xs) w1)) = Inl e"
      by simp_all
    have c: "\<forall>l<j. \<exists>v. fst (run_single (xs ! l) (fold (\<lambda>x s. snd (run_single x s)) (take l xs) w1)) = Inr v"
    proof (intro allI impI)
      fix l assume "l < j"
      with Suc have "Suc l < i" by simp
      from Cons.prems(3)[rule_format, OF this] r show
        "\<exists>v. fst (run_single (xs ! l) (fold (\<lambda>x s. snd (run_single x s)) (take l xs) w1)) = Inr v"
        by simp
    qed
    from Cons.IH[OF a b c] r v Suc show ?thesis by simp
  qed
qed

lemma run_batch_sequential_failure:
  assumes "\<not> 1 < multiprocess (args self)"
    and "i < length prompts"
    and "task_outcome self cm prompts w i = Inl e"
    and "\<forall>j<i. \<exists>v. task_outcome self cm prompts w j = Inr v"
  shows "run_batch self cm prompts w = (Inl e, self, task_state self cm prompts w (Suc i), [])"
proof -
  let ?xs = "map (\<lambda>prompt. (prompt, cache self, args self, cm)) prompts"
  have "run_sequential ?xs w = (Inl e, fold (\<lambda>x s. snd (run_single x s)) (take (Suc i) ?xs) w)"
  proof (rule sequential_first_failure)
    show "i < length ?xs" using assms(2) by simp
    show "fst (run_single (?xs ! i) (fold (\<lambda>x s. snd (run_single x s)) (take i ?xs) w)) = Inl e"
      using assms(2,3) by (simp add: task_outcome_def task_state_def fold_arguments)
    show "\<forall>j<i. \<exists>v. fst (run_single (?xs ! j) (fold (\<lambda>x s. snd (run_single x s)) (take j ?xs) w)) = Inr v"
      using assms(2,4) by (simp add: task_outcome_def task_state_def fold_arguments)
  qed
  then have "run_sequential ?xs w = (Inl e, task_state self cm prompts w (Suc i))"
    by (simp only: fold_arguments task_state_def)
  then show ?thesis
    unfolding run_batch_def Let_def using assms(1) by simp
qed

lemma run_batch_sequential_success:
  assumes "\<not> 1 < multiprocess (args self)"
    and "batch_outcomes self cm prompts w = map Inr vs"
  shows "run_batch self cm prompts w =
    (let w' = task_state self cm prompts w (length prompts) in
     if use_cache (args self) then
       (case update_cache None (zip prompts vs) (cache self) of
          (Some e, c') \<Rightarrow> (Inl e, self\<lparr>cache := c'\<rparr>, w', [])
        | (None, c') \<Rightarrow> (Inr vs, self\<lparr>cache := c'\<rparr>, w', []))
     else (Inr vs, self, w', []))"
proof -
  let ?xs = "map (\<lambda>prompt. (prompt, cache self, args self, cm)) prompts"
  have "run_tasks_in_parallel run_single ?xs 1 w =
             (map Success vs, task_state self cm prompts w (length prompts))"
    using pool_outcomes[of self cm prompts 1 w] pool_final_state[of self cm prompts 1 w] assms(2)
    by (simp add: prod_eq_iff comp_def)
  then have "run_sequential ?xs w = (Inr vs, task_state self cm prompts w (length prompts))"
    by (rule sequential_pool)
  then show ?thesis
    unfolding run_batch_def Let_def using assms(1) by simp
qed

lemma run_single_PStr_cached:
  "run_single (PStr s, Some cd, a, cm) w = (Inl UnboundLocalError, w)"
  by (simp add: run_single.simps)

lemma no_failures_printed: "[e. Inl e \<leftarrow> map Inr vs] = []"
  by (induction vs) simp_all

lemma collect_outputs_no_failure:
  "collect_outputs k (map capture (map Inr vs)) [] [] = (vs, [])"
  using collect_outputs_all_success[of k vs] by (simp add: comp_def)

lemma keys_differ: "json_dumps messages_A \<noteq> json_dumps messages_B"
  by (simp add: json_dumps_def messages_A_def messages_B_def dumps_dict_def
        encode_basestring_ascii_def escape_ascii_def)

lemma batch_outcomes_length [simp]:
  "length (batch_outcomes self cm prompts w) = length prompts"
  by (simp add: batch_outcomes_def)

lemma batch_outcomes_nth [simp]:
  "i < length prompts \<Longrightarrow>
   batch_outcomes self cm prompts w ! i = task_outcome self cm prompts w i"
  by (simp add: batch_outcomes_def)

lemma successes_are_lists:
  assumes "cache self = Some cd"
    and "\<forall>i<length prompts. \<exists>v. task_outcome self cm prompts w i = Inr v"
  shows "\<exists>mss. prompts = map PList mss"
proof -
  have "\<forall>i<length prompts. is_list (prompts ! i)"
  proof (intro allI impI)
    fix i assume "i < length prompts"
    with assms(2) obtain v where v: "task_outcome self cm prompts w i = Inr v" by blast
    show "is_list (prompts ! i)"
    proof (cases "prompts ! i")
      case (PStr s)
      with v assms(1) show ?thesis
        by (simp add: task_outcome_def run_single_PStr_cached)
    next
      case (PList ms)
      then show ?thesis by simp
    qed
  qed
  then have "prompts = map PList (map (\<lambda>p. case p of PList ms \<Rightarrow> ms | PStr s \<Rightarrow> []) prompts)"
    by (intro nth_equalityI) (auto split: prompt.splits)
  then show ?thesis by blast
qed

lemma all_success_outcomes:
  assumes "\<forall>i<length prompts. \<exists>v. task_outcome self cm prompts w i = Inr v"
  shows "\<exists>vs. batch_outcomes self cm prompts w = map Inr vs \<and> length vs = length prompts
            \<and> (\<forall>i<length prompts. task_outcome self cm prompts w i = Inr (vs ! i))"
proof -
  define vs where "vs = map (\<lambda>i. projr (task_outcome self cm prompts w i)) [0 ..< length prompts]"
  have len: "length vs = length prompts" by (simp add: vs_def)
  have nth: "\<forall>i<length prompts. task_outcome self cm prompts w i = Inr (vs ! i)"
    using assms by (auto simp: vs_def)
  have "batch_outcomes self cm prompts w = map Inr vs"
    using nth by (intro nth_equalityI) (simp_all add: len)
  with len nth show ?thesis by blast
qed

lemma run_batch_all_success:
  assumes "batch_outcomes self cm prompts w = map Inr vs"
  shows "run_batch self cm prompts w =
    (if use_cache (args self) then
       (case update_cache None (zip prompts vs) (cache self) of
          (Some e, c') \<Rightarrow>
            (Inl e, self\<lparr>cache := c'\<rparr>, task_state self cm prompts w (length prompts), [])
        | (None, c') \<Rightarrow>
            (Inr vs, self\<lparr>cache := c'\<rparr>, task_state self cm prompts w (length prompts), []))
     else (Inr vs, self, task_state self cm prompts w (length prompts), []))"
proof (cases "1 < multiprocess (args self)")
  case True
  show ?thesis
    unfolding run_batch_parallel[OF True] assms collect_outputs_no_failure no_failures_printed
      fst_conv
    by simp
next
  case False
  show ?thesis
    unfolding run_batch_sequential_success[OF False assms] Let_def by simp
qed

lemma update_cache_exn:
  "update_cache pc kvs c = (Some e, c') \<Longrightarrow> e = UnboundLocalError \<or> e = TypeError"
proof (induction kvs arbitrary: pc c)
  case Nil
  then show ?case by simp
next
  case (Cons kv kvs)
  obtain p out where kv: "kv = (p, out)" by (cases kv)
  show ?case
  proof (cases "case p of PList ms \<Rightarrow> Some (json_dumps ms) | PStr s \<Rightarrow> pc")
    case None
    with Cons.prems kv show ?thesis by simp
  next
    case (Some k)
    note key = this
    show ?thesis
    proof (cases c)
      case None
      with Cons.prems kv key show ?thesis by simp
    next
      case (Some d)
      with Cons.prems kv key
      have "update_cache (Some k) kvs (Some (AList.update k out d)) = (Some e, c')" by simp
      from Cons.IH[OF this] show ?thesis .
    qed
  qed
qed

lemma run_batch_sequential_raises:
  assumes seq: "\<not> 1 < multiprocess (args self)"
    and i: "i < length prompts"
    and f: "task_outcome self cm prompts w i = Inl e"
  shows "\<exists>e' w'. run_batch self cm prompts w = (Inl e', self, w', [])"
proof -
  let ?xs = "map (\<lambda>prompt. (prompt, cache self, args self, cm)) prompts"
  have f': "fst (run_tasks_in_parallel run_single ?xs 1 w) ! i = Failure e"
    using i f by (simp add: pool_outcomes)
  have l: "i < length ?xs" using i by simp
  from sequential_failure[OF l f'] obtain e' w' where "run_sequential ?xs w = (Inl e', w')"
    by (elim exE)
  then have "run_batch self cm prompts w = (Inl e', self, w', [])"
    unfolding run_batch_def Let_def using seq by simp
  then show ?thesis by blast
qed

lemma parallel_outputs_cover:
  assumes "1 \<le> k"
  shows "length prompts \<le>
           length (fst (collect_outputs k (map capture (batch_outcomes self cm prompts w)) [] []))"
  using collect_outputs_length[OF assms, of "map capture (batch_outcomes self cm prompts w)"]
  by simp

lemma messages_differ: "messages_A \<noteq> messages_B"
  by (simp add: messages_A_def messages_B_def)

lemmas example_defs =
  example_runner_def init_def example_args_def example_model_def task_A_def task_B_def
  x_worker_def short_worker_def raising_worker_def raising_on_A_def sampling_worker_def
  problem_prompt_def run_single.simps task_outcome_def task_state_def
  keys_differ keys_differ[symmetric] messages_differ messages_differ[symmetric]

section \<open>Batches\<close>

text \<open>
  Claim C1, as amended. When no task of the batch fails, that is when \<^verbatim>\<open>run_single\<close>
  returns for every task (from the cache or from the worker), \<^verbatim>\<open>run_batch\<close> returns
  normally with exactly one result per input task, the \<open>i\<close>-th element being the value
  \<^verbatim>\<open>run_single\<close> returned for the \<open>i\<close>-th task, at any value of \<^verbatim>\<open>multiprocess\<close>; nothing
  is printed and every task has run. The runner is as \<^verbatim>\<open>__init__\<close> leaves it: with
  caching enabled its cache is a dictionary.
\<close>

theorem one_result_per_task:
  assumes "use_cache (args self) \<longrightarrow> cache self \<noteq> None"
    and "\<forall>i<length prompts. \<exists>v. task_outcome self cm prompts w i = Inr v"
  shows "\<exists>outs c'.
           run_batch self cm prompts w =
             (Inr outs, self\<lparr>cache := c'\<rparr>, task_state self cm prompts w (length prompts), [])
         \<and> length outs = length prompts
         \<and> (\<forall>i<length prompts. task_outcome self cm prompts w i = Inr (outs ! i))"
proof -
  from all_success_outcomes[OF assms(2)] obtain vs
    where os: "batch_outcomes self cm prompts w = map Inr vs"
      and len: "length vs = length prompts"
      and nth: "\<forall>i<length prompts. task_outcome self cm prompts w i = Inr (vs ! i)"
    by blast
  have "\<exists>c'. run_batch self cm prompts w =
          (Inr vs, self\<lparr>cache := c'\<rparr>, task_state self cm prompts w (length prompts), [])"
  proof (cases "use_cache (args self)")
    case True
    with assms(1) obtain cd where cd: "cache self = Some cd" by auto
    from successes_are_lists[OF cd assms(2)] obtain mss where "prompts = map PList mss" by blast
    with cd have "update_cache None (zip prompts vs) (cache self) =
                    (None, Some (AList.updates (map json_dumps mss) vs cd))"
      by (simp add: update_cache_lists)
    with True have "run_batch self cm prompts w =
        (Inr vs, self\<lparr>cache := Some (AList.updates (map json_dumps mss) vs cd)\<rparr>,
         task_state self cm prompts w (length prompts), [])"
      by (simp add: run_batch_all_success[OF os])
    then show ?thesis by blast
  next
    case False
    have "self\<lparr>cache := cache self\<rparr> = self" by simp
    with False show ?thesis
      by (intro exI[of _ "cache self"]) (simp add: run_batch_all_success[OF os])
  qed
  with len nth show ?thesis by blast
qed

theorem one_result_per_task_witness:
  "cache (example_runner 1 True None) \<noteq> None
   \<and> task_outcome (example_runner 1 True None) x_worker [task_A, task_B] 0 0 =
       Inr (VList [''x1'', ''x2''])
   \<and> task_outcome (example_runner 1 True None) x_worker [task_A, task_B] 0 (Suc 0) =
       Inr (VList [''x1'', ''x2''])
   \<and> run_batch (example_runner 1 True None) x_worker [task_A, task_B] 0 =
       (Inr [VList [''x1'', ''x2''], VList [''x1'', ''x2'']],
        (example_runner 1 True None)
          \<lparr>cache := Some [(json_dumps messages_A, VList [''x1'', ''x2'']),
                           (json_dumps messages_B, VList [''x1'', ''x2''])]\<rparr>,
        2, [])"
  using one_result_per_task[where self = "example_runner 1 True None"
          and prompts = "[task_A, task_B]" and cm = x_worker and w = 0]
  by (simp add: run_batch_def example_defs)

text \<open>
  The claim as stated also covers failing tasks. In the sequential branch a failing
  task makes \<^verbatim>\<open>run_batch\<close> raise; in the pool branch a failing task contributes \<open>N\<close>
  elements to the result, so one task yields two elements here.
\<close>

theorem one_result_per_task_counterexample:
  "run_batch (example_runner 1 False None) raising_worker [task_A] 0 =
      (Inl (WorkerException ''boom''), example_runner 1 False None, 1, [])
   \<and> fst (run_batch (example_runner 2 False None) raising_worker [task_A] 0) =
      Inr [VStr [], VStr []]
   \<and> length [VStr [], VStr []] \<noteq> length [task_A]"
  by (simp add: run_batch_def example_defs eval_nat_numeral)

text \<open>
  Claim C7, as amended. When \<^verbatim>\<open>multiprocess\<close> exceeds one, an exception raised while a
  task runs does not propagate out of \<^verbatim>\<open>run_batch\<close> and does not keep the other tasks
  from running: every task is run, the diagnostics of the failed tasks are printed in
  task order, \<^verbatim>\<open>run_batch\<close> never raises a worker's exception, and it returns normally
  whenever caching is off or all tasks are structured. In the sequential branch the first
  exception propagates out of \<^verbatim>\<open>run_batch\<close>: the runner is unchanged, nothing is
  printed, and the worker's state is the one that the failing task left, so the tasks
  after it have not run.
\<close>

theorem failure_isolation:
  "(1 < multiprocess (args self) \<longrightarrow>
      (\<exists>r c'. run_batch self cm prompts w =
                 (r, self\<lparr>cache := c'\<rparr>, task_state self cm prompts w (length prompts),
                  [e. Inl e \<leftarrow> batch_outcomes self cm prompts w])
             \<and> (\<forall>d. r \<noteq> Inl (WorkerException d))
             \<and> ((use_cache (args self) \<longrightarrow>
                    (\<exists>cd mss. cache self = Some cd \<and> prompts = map PList mss))
                  \<longrightarrow> (\<exists>outs. r = Inr outs)))) \<and>
   (\<not> 1 < multiprocess (args self) \<and> i < length prompts
      \<and> task_outcome self cm prompts w i = Inl e
      \<and> (\<forall>j<i. \<exists>v. task_outcome self cm prompts w j = Inr v) \<longrightarrow>
      run_batch self cm prompts w = (Inl e, self, task_state self cm prompts w (Suc i), []))"
proof (intro conjI impI)
  assume par: "1 < multiprocess (args self)"
  let ?outs = "fst (collect_outputs (n (args self))
                      (map capture (batch_outcomes self cm prompts w)) [] [])"
  let ?pr = "[e. Inl e \<leftarrow> batch_outcomes self cm prompts w]"
  let ?w = "task_state self cm prompts w (length prompts)"
  have self: "self\<lparr>cache := cache self\<rparr> = self" by simp
  show "\<exists>r c'. run_batch self cm prompts w = (r, self\<lparr>cache := c'\<rparr>, ?w, ?pr)
             \<and> (\<forall>d. r \<noteq> Inl (WorkerException d))
             \<and> ((use_cache (args self) \<longrightarrow>
                    (\<exists>cd mss. cache self = Some cd \<and> prompts = map PList mss))
                  \<longrightarrow> (\<exists>outs. r = Inr outs))"
  proof (cases "use_cache (args self)")
    case False
    then have rb: "run_batch self cm prompts w =
        (Inr ?outs, self\<lparr>cache := cache self\<rparr>, ?w, ?pr)"
      by (simp add: run_batch_parallel[OF par])
    show ?thesis
    proof (intro exI conjI)
      show "run_batch self cm prompts w = (Inr ?outs, self\<lparr>cache := cache self\<rparr>, ?w, ?pr)"
        by (rule rb)
      show "\<forall>d. Inr ?outs \<noteq> Inl (WorkerException d)" by simp
      show "(use_cache (args self) \<longrightarrow>
               (\<exists>cd mss. cache self = Some cd \<and> prompts = map PList mss))
            \<longrightarrow> (\<exists>outs. Inr ?outs = Inr outs)" by simp
    qed
  next
    case True
    obtain x c' where u: "update_cache None (zip prompts ?outs) (cache self) = (x, c')"
      by (cases "update_cache None (zip prompts ?outs) (cache self)")
    show ?thesis
    proof (cases x)
      case None
      with u True have rb: "run_batch self cm prompts w =
          (Inr ?outs, self\<lparr>cache := c'\<rparr>, ?w, ?pr)"
        by (simp add: run_batch_parallel[OF par])
      show ?thesis
      proof (intro exI conjI)
        show "run_batch self cm prompts w = (Inr ?outs, self\<lparr>cache := c'\<rparr>, ?w, ?pr)"
          by (rule rb)
        show "\<forall>d. Inr ?outs \<noteq> Inl (WorkerException d)" by simp
        show "(use_cache (args self) \<longrightarrow>
                 (\<exists>cd mss. cache self = Some cd \<and> prompts = map PList mss))
              \<longrightarrow> (\<exists>outs. Inr ?outs = Inr outs)" by simp
      qed
    next
      case (Some e')
      with u True have rb: "run_batch self cm prompts w =
          (Inl e', self\<lparr>cache := c'\<rparr>, ?w, ?pr)"
        by (simp add: run_batch_parallel[OF par])
      from u Some have "update_cache None (zip prompts ?outs) (cache self) = (Some e', c')"
        by simp
      then have e': "e' = UnboundLocalError \<or> e' = TypeError" by (rule update_cache_exn)
      have nolists: "\<not> (\<exists>cd mss. cache self = Some cd \<and> prompts = map PList mss)"
      proof
        assume "\<exists>cd mss. cache self = Some cd \<and> prompts = map PList mss"
        then obtain cd mss where "cache self = Some cd" "prompts = map PList mss" by blast
        with u Some show False by (simp add: update_cache_lists)
      qed
      show ?thesis
      proof (intro exI conjI)
        show "run_batch self cm prompts w = (Inl e', self\<lparr>cache := c'\<rparr>, ?w, ?pr)"
          by (rule rb)
        show "\<forall>d. Inl e' \<noteq> Inl (WorkerException d)" using e' by auto
        show "(use_cache (args self) \<longrightarrow>
                 (\<exists>cd mss. cache self = Some cd \<and> prompts = map PList mss))
              \<longrightarrow> (\<exists>outs. Inl e' = Inr outs)" using nolists True by simp
      qed
    qed
  qed
next
  assume a: "\<not> 1 < multiprocess (args self) \<and> i < length prompts
      \<and> task_outcome self cm prompts w i = Inl e
      \<and> (\<forall>j<i. \<exists>v. task_outcome self cm prompts w j = Inr v)"
  show "run_batch self cm prompts w = (Inl e, self, task_state self cm prompts w (Suc i), [])"
  proof (rule run_batch_sequential_failure)
    show "\<not> 1 < multiprocess (args self)" using a by (rule conjunct1)
    show "i < length prompts" using a by simp
    show "task_outcome self cm prompts w i = Inl e" using a by simp
    show "\<forall>j<i. \<exists>v. task_outcome self cm prompts w j = Inr v" using a by simp
  qed
qed

theorem failure_isolation_witness:
  "1 < multiprocess (args (example_runner 2 False None))
   \<and> run_batch (example_runner 2 False None) raising_on_A [task_B, task_A, task_B] 0 =
       (Inr [VList [''x1'', ''x2''], VStr [], VStr [], VList [''x1'', ''x2'']],
        example_runner 2 False None, 3, [WorkerException ''boom''])
   \<and> task_state (example_runner 2 False None) raising_on_A [task_B, task_A, task_B] 0 3 = 3
   \<and> \<not> 1 < multiprocess (args (example_runner 1 False None))
   \<and> task_outcome (example_runner 1 False None) raising_on_A [task_B, task_A, task_B] 0 0 =
       Inr (VList [''x1'', ''x2''])
   \<and> task_outcome (example_runner 1 False None) raising_on_A [task_B, task_A, task_B] 0 (Suc 0) =
       Inl (WorkerException ''boom'')
   \<and> run_batch (example_runner 1 False None) raising_on_A [task_B, task_A, task_B] 0 =
       (Inl (WorkerException ''boom''), example_runner 1 False None, 2, [])"
  using failure_isolation[where self = "example_runner 2 False None" and cm = raising_on_A
          and prompts = "[task_B, task_A, task_B]" and w = 0 and i = 0
          and e = "WorkerException ''boom''"]
        failure_isolation[where self = "example_runner 1 False None" and cm = raising_on_A
          and prompts = "[task_B, task_A, task_B]" and w = 0 and i = "Suc 0"
          and e = "WorkerException ''boom''"]
  by (simp add: run_batch_def example_defs eval_nat_numeral)

text \<open>
  The claim as stated includes a parallelism of one: there the exception of the first
  task leaves \<^verbatim>\<open>run_batch\<close>, and the worker has been invoked once, not twice.
\<close>

theorem failure_isolation_counterexample:
  "run_batch (example_runner 1 False None) raising_on_A [task_A, task_B] 0 =
     (Inl (WorkerException ''boom''), example_runner 1 False None, 1, [])
   \<and> task_state (example_runner 1 False None) raising_on_A [task_A, task_B] 0 2 = 2"
  by (simp add: run_batch_def example_defs eval_nat_numeral)

text \<open>
  Claim C2, at a failing input. With \<open>N = 2\<close> and a pool run in which the worker raises
  for the second of two tasks, \<^verbatim>\<open>outputs.extend([""] * self.args.n)\<close> splices two
  empty strings into the result: it has three elements for two tasks, and the element at
  the failed task's position is the string \<^verbatim>\<open>""\<close>, of length 0, not one sequence of two
  empty strings.
\<close>

theorem placeholder_is_spliced:
  "run_batch (example_runner 2 False None) raising_on_A [task_B, task_A] 0 =
     (Inr [VList [''x1'', ''x2''], VStr [], VStr []], example_runner 2 False None, 2,
      [WorkerException ''boom''])
   \<and> n (args (example_runner 2 False None)) = 2
   \<and> length [VList [''x1'', ''x2''], VStr [], VStr []] = 3
   \<and> [VList [''x1'', ''x2''], VStr [], VStr []] ! 1 = VStr []
   \<and> len (VStr []) = 0
   \<and> VStr [] \<noteq> VList [[], []]"
  by (simp add: run_batch_def example_defs eval_nat_numeral)

section \<open>The cache after a batch\<close>

text \<open>
  Claim C3, as amended. \<^verbatim>\<open>run_batch\<close> writes the cache for the prompts of the batch
  whether their tasks failed or not. In a pool run with caching enabled, structured tasks
  and \<open>N \<ge> 1\<close>, \<^verbatim>\<open>run_batch\<close> returns normally and the cache afterwards holds an
  entry under the fingerprint of every task of the batch, failed tasks included. In the
  sequential branch a failing task makes \<^verbatim>\<open>run_batch\<close> raise before the cache is
  written: the runner, and so its cache, is unchanged.
\<close>

theorem cache_written_for_failed_task:
  "(1 < multiprocess (args self) \<and> use_cache (args self) \<and> cache self = Some cd
      \<and> prompts = map PList mss \<and> 1 \<le> n (args self) \<longrightarrow>
      (\<exists>outs cd' w' printed.
          run_batch self cm prompts w = (Inr outs, self\<lparr>cache := Some cd'\<rparr>, w', printed)
        \<and> (\<forall>ms \<in> set mss. \<exists>v. map_of cd' (json_dumps ms) = Some v))) \<and>
   (\<not> 1 < multiprocess (args self) \<and> i < length prompts
      \<and> task_outcome self cm prompts w i = Inl e \<longrightarrow>
      (\<exists>e' w'. run_batch self cm prompts w = (Inl e', self, w', [])))"
proof (intro conjI impI)
  assume a: "1 < multiprocess (args self) \<and> use_cache (args self) \<and> cache self = Some cd
      \<and> prompts = map PList mss \<and> 1 \<le> n (args self)"
  then have par: "1 < multiprocess (args self)" and uc: "use_cache (args self)"
    and cd: "cache self = Some cd" and ps: "prompts = map PList mss"
    and k: "1 \<le> n (args self)" by simp_all
  define outs where
    "outs = fst (collect_outputs (n (args self))
                   (map capture (batch_outcomes self cm prompts w)) [] [])"
  define cd' where "cd' = AList.updates (map json_dumps mss) outs cd"
  have len: "length mss \<le> length outs"
    using parallel_outputs_cover[OF k, of prompts self cm w] ps by (simp add: outs_def)
  have u: "update_cache None (zip prompts outs) (cache self) = (None, Some cd')"
    by (simp add: ps cd cd'_def update_cache_lists)
  have rb: "run_batch self cm prompts w =
      (Inr outs, self\<lparr>cache := Some cd'\<rparr>, task_state self cm prompts w (length prompts),
       [e. Inl e \<leftarrow> batch_outcomes self cm prompts w])"
    unfolding run_batch_parallel[OF par] outs_def[symmetric] using uc u by simp
  have keys: "\<forall>ms \<in> set mss. \<exists>v. map_of cd' (json_dumps ms) = Some v"
  proof
    fix ms assume "ms \<in> set mss"
    then have "json_dumps ms \<in> set (take (length outs) (map json_dumps mss))"
      using len by simp
    then have "json_dumps ms \<in> dom ((map_of cd)(map json_dumps mss [\<mapsto>] outs))"
      by (simp add: dom_map_upds)
    then have "\<exists>v. ((map_of cd)(map json_dumps mss [\<mapsto>] outs)) (json_dumps ms) = Some v"
      by (rule domD)
    then show "\<exists>v. map_of cd' (json_dumps ms) = Some v"
      by (simp only: cd'_def updates_conv')
  qed
  show "\<exists>outs cd' w' printed.
          run_batch self cm prompts w = (Inr outs, self\<lparr>cache := Some cd'\<rparr>, w', printed)
        \<and> (\<forall>ms \<in> set mss. \<exists>v. map_of cd' (json_dumps ms) = Some v)"
  proof (intro exI conjI)
    show "run_batch self cm prompts w =
      (Inr outs, self\<lparr>cache := Some cd'\<rparr>, task_state self cm prompts w (length prompts),
       [e. Inl e \<leftarrow> batch_outcomes self cm prompts w])" by (rule rb)
    show "\<forall>ms \<in> set mss. \<exists>v. map_of cd' (json_dumps ms) = Some v" by (rule keys)
  qed
next
  assume a: "\<not> 1 < multiprocess (args self) \<and> i < length prompts
      \<and> task_outcome self cm prompts w i = Inl e"
  show "\<exists>e' w'. run_batch self cm prompts w = (Inl e', self, w', [])"
  proof (rule run_batch_sequential_raises)
    show "\<not> 1 < multiprocess (args self)" using a by (rule conjunct1)
    show "i < length prompts" using a by simp
    show "task_outcome self cm prompts w i = Inl e" using a by simp
  qed
qed

theorem cache_written_for_failed_task_witness:
  "1 < multiprocess (args (example_runner 2 True None))
   \<and> use_cache (args (example_runner 2 True None))
   \<and> cache (example_runner 2 True None) = Some []
   \<and> [task_A, task_B] = map PList [messages_A, messages_B]
   \<and> 1 \<le> n (args (example_runner 2 True None))
   \<and> task_outcome (example_runner 2 True None) raising_on_A [task_A, task_B] 0 0 =
       Inl (WorkerException ''boom'')
   \<and> run_batch (example_runner 2 True None) raising_on_A [task_A, task_B] 0 =
       (Inr [VStr [], VStr [], VList [''x1'', ''x2'']],
        (example_runner 2 True None)
          \<lparr>cache := Some [(json_dumps messages_A, VStr []), (json_dumps messages_B, VStr [])]\<rparr>,
        2, [WorkerException ''boom''])
   \<and> map_of [(json_dumps messages_A, VStr []), (json_dumps messages_B, VStr [])]
         (json_dumps messages_A) = Some (VStr [])
   \<and> \<not> 1 < multiprocess (args (example_runner 1 True None))
   \<and> task_outcome (example_runner 1 True None) raising_on_A [task_A, task_B] 0 0 =
       Inl (WorkerException ''boom'')
   \<and> run_batch (example_runner 1 True None) raising_on_A [task_A, task_B] 0 =
       (Inl (WorkerException ''boom''), example_runner 1 True None, 1, [])"
  using cache_written_for_failed_task[where self = "example_runner 2 True None"
          and cm = raising_on_A and prompts = "[task_A, task_B]" and w = 0 and cd = "[]"
          and mss = "[messages_A, messages_B]" and i = 0 and e = "WorkerException ''boom''"]
        cache_written_for_failed_task[where self = "example_runner 1 True None"
          and cm = raising_on_A and prompts = "[task_A, task_B]" and w = 0 and cd = "[]"
          and mss = "[messages_A, messages_B]" and i = 0 and e = "WorkerException ''boom''"]
  by (simp add: run_batch_def example_defs eval_nat_numeral)

text \<open>
  The claim as stated says that the fingerprint of a failed task has no entry afterwards.
  Here the worker raises for the first task of a pool run; after \<^verbatim>\<open>run_main\<close> has
  flushed the cache, the cache in memory and the persisted one hold an entry under that
  task's fingerprint.
\<close>

theorem cache_written_for_failed_task_counterexample:
  "task_outcome (example_runner 2 True None) raising_on_A [task_A, task_B] 0 0 =
       Inl (WorkerException ''boom'')
   \<and> run_main (example_runner 2 True None) raising_on_A problem_prompt [task_A, task_B]
         None 0 None =
       (Inr (Outputs [VStr [], VStr [], VList [''x1'', ''x2'']]),
        (example_runner 2 True None)
          \<lparr>cache := Some [(json_dumps messages_A, VStr []), (json_dumps messages_B, VStr [])]\<rparr>,
        2,
        Some (Some [(json_dumps messages_A, VStr []), (json_dumps messages_B, VStr [])]),
        [WorkerException ''boom''])
   \<and> map_of [(json_dumps messages_A, VStr []), (json_dumps messages_B, VStr [])]
         (json_dumps messages_A) = Some (VStr [])"
  by (simp add: run_main_def save_cache_def run_batch_def example_defs eval_nat_numeral)

text \<open>
  Claim C10, as amended. With caching enabled, after a run in which every prompt is a
  structured task and every task succeeds, \<^verbatim>\<open>run_batch\<close> has assigned the cache entry
  of every prompt, cache hit or not: for every prompt that is the last of the batch with
  its serialization, the cache maps the serialization to exactly the output returned for
  that prompt, whatever entry was there before, and the entries under other keys are as
  they were. (For a prompt that occurs again later in the batch the entry is the later
  occurrence's output.)
\<close>

theorem cache_written_for_every_prompt:
  assumes uc: "use_cache (args self)"
    and cd: "cache self = Some cd"
    and ps: "prompts = map PList mss"
    and ok: "\<forall>i<length prompts. \<exists>v. task_outcome self cm prompts w i = Inr v"
  shows "\<exists>outs cd'.
           run_batch self cm prompts w =
             (Inr outs, self\<lparr>cache := Some cd'\<rparr>, task_state self cm prompts w (length prompts), [])
         \<and> length outs = length mss
         \<and> (\<forall>i<length mss. task_outcome self cm prompts w i = Inr (outs ! i))
         \<and> (\<forall>i<length mss.
               (\<forall>j. i < j \<and> j < length mss \<longrightarrow> json_dumps (mss ! j) \<noteq> json_dumps (mss ! i))
               \<longrightarrow> map_of cd' (json_dumps (mss ! i)) = Some (outs ! i))
         \<and> (\<forall>k. k \<notin> json_dumps ` set mss \<longrightarrow> map_of cd' k = map_of cd k)"
proof -
  from all_success_outcomes[OF ok] obtain vs
    where os: "batch_outcomes self cm prompts w = map Inr vs"
      and len: "length vs = length prompts"
      and nth: "\<forall>i<length prompts. task_outcome self cm prompts w i = Inr (vs ! i)"
    by blast
  define cd' where "cd' = AList.updates (map json_dumps mss) vs cd"
  have lm: "length vs = length mss" using len ps by simp
  have m: "map_of cd' = (map_of cd)(map json_dumps mss [\<mapsto>] vs)"
    by (simp add: cd'_def updates_conv')
  have u: "update_cache None (zip prompts vs) (cache self) = (None, Some cd')"
    by (simp add: ps cd cd'_def update_cache_lists)
  have rb: "run_batch self cm prompts w =
      (Inr vs, self\<lparr>cache := Some cd'\<rparr>, task_state self cm prompts w (length prompts), [])"
    using uc u by (simp add: run_batch_all_success[OF os])
  have last: "\<forall>i<length mss.
               (\<forall>j. i < j \<and> j < length mss \<longrightarrow> json_dumps (mss ! j) \<noteq> json_dumps (mss ! i))
               \<longrightarrow> map_of cd' (json_dumps (mss ! i)) = Some (vs ! i)"
  proof (intro allI impI)
    fix i assume i: "i < length mss"
      and d: "\<forall>j. i < j \<and> j < length mss \<longrightarrow> json_dumps (mss ! j) \<noteq> json_dumps (mss ! i)"
    have "((map_of cd)(map json_dumps mss [\<mapsto>] vs)) (map json_dumps mss ! i) = Some (vs ! i)"
    proof (rule map_upds_last)
      show "length (map json_dumps mss) = length vs" using lm by simp
      show "i < length (map json_dumps mss)" using i by simp
      show "\<forall>j. i < j \<and> j < length (map json_dumps mss) \<longrightarrow>
              map json_dumps mss ! j \<noteq> map json_dumps mss ! i"
        using d i by simp
    qed
    then show "map_of cd' (json_dumps (mss ! i)) = Some (vs ! i)" using i by (simp add: m)
  qed
  have other: "\<forall>k. k \<notin> json_dumps ` set mss \<longrightarrow> map_of cd' k = map_of cd k"
    by (simp add: m map_upds_apply_nontin)
  have nth': "\<forall>i<length mss. task_outcome self cm prompts w i = Inr (vs ! i)"
    using nth ps by simp
  show ?thesis
  proof (intro exI conjI)
    show "run_batch self cm prompts w =
      (Inr vs, self\<lparr>cache := Some cd'\<rparr>, task_state self cm prompts w (length prompts), [])"
      by (rule rb)
    show "length vs = length mss" by (rule lm)
    show "\<forall>i<length mss. task_outcome self cm prompts w i = Inr (vs ! i)" by (rule nth')
    show "\<forall>i<length mss.
               (\<forall>j. i < j \<and> j < length mss \<longrightarrow> json_dumps (mss ! j) \<noteq> json_dumps (mss ! i))
               \<longrightarrow> map_of cd' (json_dumps (mss ! i)) = Some (vs ! i)" by (rule last)
    show "\<forall>k. k \<notin> json_dumps ` set mss \<longrightarrow> map_of cd' k = map_of cd k" by (rule other)
  qed
qed

theorem cache_written_for_every_prompt_witness:
  "use_cache (args (example_runner 1 True (Some (Some [(json_dumps messages_A, VList [''c1'', ''c2''])]))))
   \<and> cache (example_runner 1 True (Some (Some [(json_dumps messages_A, VList [''c1'', ''c2''])]))) =
       Some [(json_dumps messages_A, VList [''c1'', ''c2''])]
   \<and> [task_A, task_B] = map PList [messages_A, messages_B]
   \<and> task_outcome (example_runner 1 True (Some (Some [(json_dumps messages_A, VList [''c1'', ''c2''])])))
         x_worker [task_A, task_B] 0 0 = Inr (VList [''c1'', ''c2''])
   \<and> task_outcome (example_runner 1 True (Some (Some [(json_dumps messages_A, VList [''c1'', ''c2''])])))
         x_worker [task_A, task_B] 0 (Suc 0) = Inr (VList [''x1'', ''x2''])
   \<and> run_batch (example_runner 1 True (Some (Some [(json_dumps messages_A, VList [''c1'', ''c2''])])))
         x_worker [task_A, task_B] 0 =
       (Inr [VList [''c1'', ''c2''], VList [''x1'', ''x2'']],
        (example_runner 1 True (Some (Some [(json_dumps messages_A, VList [''c1'', ''c2''])])))
          \<lparr>cache := Some [(json_dumps messages_A, VList [''c1'', ''c2'']),
                           (json_dumps messages_B, VList [''x1'', ''x2''])]\<rparr>,
        1, [])"
  using cache_written_for_every_prompt[where
          self = "example_runner 1 True (Some (Some [(json_dumps messages_A, VList [''c1'', ''c2''])]))"
          and cm = x_worker and prompts = "[task_A, task_B]" and w = 0
          and cd = "[(json_dumps messages_A, VList [''c1'', ''c2''])]"
          and mss = "[messages_A, messages_B]"]
  by (simp add: run_batch_def example_defs eval_nat_numeral)

text \<open>
  The claim as stated speaks of each prompt. When the same prompt occurs twice in a batch
  and the worker answers differently the second time, the cache holds the second output
  under the common key, which is not the output returned for the first occurrence.
\<close>

theorem cache_written_for_every_prompt_counterexample:
  "run_batch (example_runner 1 True None) sampling_worker [task_A, task_A] 0 =
     (Inr [VList [''x1'', ''x2''], VList [''y1'', ''y2'']],
      (example_runner 1 True None)\<lparr>cache := Some [(json_dumps messages_A, VList [''y1'', ''y2''])]\<rparr>,
      2, [])
   \<and> [VList [''x1'', ''x2''], VList [''y1'', ''y2'']] ! 0 = VList [''x1'', ''x2'']
   \<and> map_of [(json_dumps messages_A, VList [''y1'', ''y2''])] (json_dumps messages_A) \<noteq>
       Some (VList [''x1'', ''x2''])"
  by (simp add: run_batch_def example_defs eval_nat_numeral)

text \<open>
  Claim C4, as amended. Caching enabled, \<open>N = 2\<close>, the structured tasks \<open>[A, B, A]\<close> and
  a worker that returns \<^verbatim>\<open>["x1", "x2"]\<close> for any input and counts its invocations, at
  any value \<open>mp\<close> of \<^verbatim>\<open>multiprocess\<close>. The first run invokes the worker three times (the
  cache is only written after all tasks have run, so the second \<open>A\<close> is computed again),
  ends with two cache entries, flushed to the cache file, and returns three times
  \<^verbatim>\<open>["x1", "x2"]\<close>. A second run, by a runner that loaded that cache file, leaves the
  worker's counter at three and returns the same output.
\<close>

theorem scenario_two_runs:
  "run_main (example_runner mp True None) x_worker problem_prompt [task_A, task_B, task_A]
       None 0 None =
     (Inr (Outputs [VList [''x1'', ''x2''], VList [''x1'', ''x2''], VList [''x1'', ''x2'']]),
      (example_runner mp True None)
        \<lparr>cache := Some [(json_dumps messages_A, VList [''x1'', ''x2'']),
                         (json_dumps messages_B, VList [''x1'', ''x2''])]\<rparr>,
      3,
      Some (Some [(json_dumps messages_A, VList [''x1'', ''x2'']),
                  (json_dumps messages_B, VList [''x1'', ''x2''])]),
      [])
   \<and> length [(json_dumps messages_A, VList [''x1'', ''x2'']),
              (json_dumps messages_B, VList [''x1'', ''x2''])] = 2
   \<and> run_main
         (example_runner mp True
            (Some (Some [(json_dumps messages_A, VList [''x1'', ''x2'']),
                         (json_dumps messages_B, VList [''x1'', ''x2''])])))
         x_worker problem_prompt [task_A, task_B, task_A] None 3
         (Some (Some [(json_dumps messages_A, VList [''x1'', ''x2'']),
                      (json_dumps messages_B, VList [''x1'', ''x2''])])) =
     (Inr (Outputs [VList [''x1'', ''x2''], VList [''x1'', ''x2''], VList [''x1'', ''x2'']]),
      example_runner mp True
        (Some (Some [(json_dumps messages_A, VList [''x1'', ''x2'']),
                     (json_dumps messages_B, VList [''x1'', ''x2''])])),
      3,
      Some (Some [(json_dumps messages_A, VList [''x1'', ''x2'']),
                  (json_dumps messages_B, VList [''x1'', ''x2''])]),
      [])"
proof (cases "1 < mp")
  case True
  then show ?thesis
    by (simp add: run_main_def save_cache_def run_batch_def example_defs eval_nat_numeral)
next
  case False
  then show ?thesis
    by (simp add: run_main_def save_cache_def run_batch_def example_defs eval_nat_numeral)
qed

text \<open>
  The claim as stated has plain-text tasks and two invocations. With caching enabled a
  plain-text task raises \<^verbatim>\<open>UnboundLocalError\<close> before the worker is invoked, so the
  sequential run raises and the pool run raises in the cache loop; with the structured
  tasks \<open>[A, B, A]\<close> the worker is invoked three times, not two.
\<close>

theorem scenario_two_runs_counterexample:
  "run_batch (example_runner 1 True None) x_worker [PStr ''A'', PStr ''B'', PStr ''A''] 0 =
     (Inl UnboundLocalError, example_runner 1 True None, 0, [])
   \<and> run_batch (example_runner 2 True None) x_worker [PStr ''A'', PStr ''B'', PStr ''A''] 0 =
     (Inl UnboundLocalError, example_runner 2 True None, 0,
      [UnboundLocalError, UnboundLocalError, UnboundLocalError])
   \<and> fst (snd (snd (run_batch (example_runner 1 True None) x_worker
                        [task_A, task_B, task_A] 0))) = 3
   \<and> fst (snd (snd (run_batch (example_runner 2 True None) x_worker
                        [task_A, task_B, task_A] 0))) = 3
   \<and> (3 :: nat) \<noteq> 2"
  by (simp add: run_batch_def example_defs eval_nat_numeral)

section \<open>The self-repair scenario\<close>

lemma repair_attempts_returns:
  "repair_attempts self cm fp chk js acc w = (Inr out, w') \<Longrightarrow>
   \<exists>new. out = acc @ new \<and> length new = length js
     \<and> (\<forall>j<length js.
           (if repair_prompt self fp chk (js ! j) = PStr [] \<or>
               \<not> is_list (repair_prompt self fp chk (js ! j))
            then js ! j < length (output_list chk)
                 \<and> new ! j = VStr (output_list chk ! (js ! j))
            else \<exists>r. fst (cm (repair_prompt self fp chk (js ! j))
                            (fold (\<lambda>p s. snd (cm p s))
                               (filter is_list (map (repair_prompt self fp chk) (take j js)))
                               w)) = Inr r
                     \<and> new ! j = VList r))
     \<and> w' = fold (\<lambda>p s. snd (cm p s))
                (filter is_list (map (repair_prompt self fp chk) js)) w"
proof (induction js arbitrary: acc w)
  case Nil
  then show ?case by simp
next
  case (Cons i js)
  let ?p = "repair_prompt self fp chk i"
  let ?rp = "repair_prompt self fp chk"
  let ?step = "\<lambda>p s. snd (cm p s)"
  from Cons.prems have inb: "\<not> (length (code_list chk) \<le> i \<or> length (graded_list chk) \<le> i
         \<or> length (metadata chk) \<le> i)"
    by (auto split: if_splits)
  show ?case
  proof (cases "?p = PStr [] \<or> \<not> is_list ?p")
    case True
    with Cons.prems inb have ob: "i < length (output_list chk)"
      and rec: "repair_attempts self cm fp chk js (acc @ [VStr (output_list chk ! i)]) w
                  = (Inr out, w')"
      by (auto simp: repair_prompt_def Let_def split: if_splits)
    from Cons.IH[OF rec] obtain new where new: "out = (acc @ [VStr (output_list chk ! i)]) @ new"
      "length new = length js"
      "\<forall>j<length js.
           (if ?rp (js ! j) = PStr [] \<or> \<not> is_list (?rp (js ! j))
            then js ! j < length (output_list chk)
                 \<and> new ! j = VStr (output_list chk ! (js ! j))
            else \<exists>r. fst (cm (?rp (js ! j))
                            (fold ?step (filter is_list (map ?rp (take j js))) w)) = Inr r
                     \<and> new ! j = VList r)"
      "w' = fold ?step (filter is_list (map ?rp js)) w"
      by blast
    have nl: "\<not> is_list ?p" using True by (cases ?p) auto
    show ?thesis
    proof (intro exI[of _ "VStr (output_list chk ! i) # new"] conjI allI impI)
      show "out = acc @ VStr (output_list chk ! i) # new" using new(1) by simp
      show "length (VStr (output_list chk ! i) # new) = length (i # js)" using new(2) by simp
      show "w' = fold ?step (filter is_list (map ?rp (i # js))) w"
        using new(4) nl by simp
    next
      fix j assume j: "j < length (i # js)"
      show "if ?rp ((i # js) ! j) = PStr [] \<or> \<not> is_list (?rp ((i # js) ! j))
            then (i # js) ! j < length (output_list chk)
                 \<and> (VStr (output_list chk ! i) # new) ! j = VStr (output_list chk ! ((i # js) ! j))
            else \<exists>r. fst (cm (?rp ((i # js) ! j))
                            (fold ?step (filter is_list (map ?rp (take j (i # js)))) w)) = Inr r
                     \<and> (VStr (output_list chk ! i) # new) ! j = VList r"
      proof (cases j)
        case 0
        with True ob show ?thesis by simp
      next
        case (Suc j')
        with j have "j' < length js" by simp
        from new(3)[rule_format, OF this] Suc nl show ?thesis by (auto split: if_splits)
      qed
    qed
  next
    case False
    then have il: "is_list ?p" by simp
    obtain x w1 where cm: "cm ?p w = (x, w1)" by (cases "cm ?p w")
    from Cons.prems inb False cm obtain r where r: "x = Inr r"
      and rec: "repair_attempts self cm fp chk js (acc @ [VList r]) w1 = (Inr out, w')"
      by (cases x) (auto simp: repair_prompt_def Let_def split: if_splits)
    from Cons.IH[OF rec] obtain new where new: "out = (acc @ [VList r]) @ new"
      "length new = length js"
      "\<forall>j<length js.
           (if ?rp (js ! j) = PStr [] \<or> \<not> is_list (?rp (js ! j))
            then js ! j < length (output_list chk)
                 \<and> new ! j = VStr (output_list chk ! (js ! j))
            else \<exists>r. fst (cm (?rp (js ! j))
                            (fold ?step (filter is_list (map ?rp (take j js))) w1)) = Inr r
                     \<and> new ! j = VList r)"
      "w' = fold ?step (filter is_list (map ?rp js)) w1"
      by blast
    show ?thesis
    proof (intro exI[of _ "VList r # new"] conjI allI impI)
      show "out = acc @ VList r # new" using new(1) by simp
      show "length (VList r # new) = length (i # js)" using new(2) by simp
      show "w' = fold ?step (filter is_list (map ?rp (i # js))) w"
        using new(4) il cm by simp
    next
      fix j assume j: "j < length (i # js)"
      show "if ?rp ((i # js) ! j) = PStr [] \<or> \<not> is_list (?rp ((i # js) ! j))
            then (i # js) ! j < length (output_list chk)
                 \<and> (VList r # new) ! j = VStr (output_list chk ! ((i # js) ! j))
            else \<exists>r'. fst (cm (?rp ((i # js) ! j))
                            (fold ?step (filter is_list (map ?rp (take j (i # js)))) w)) = Inr r'
                     \<and> (VList r # new) ! j = VList r'"
      proof (cases j)
        case 0
        with False cm r show ?thesis by auto
      next
        case (Suc j')
        with j have "j' < length js" by simp
        from new(3)[rule_format, OF this] Suc il cm show ?thesis by (auto split: if_splits)
      qed
    qed
  qed
qed

lemma repair_checks_returns:
  "repair_checks self cm fp checks outputs w = (Inr outs, w') \<Longrightarrow>
   \<exists>news. outs = outputs @ news \<and> length news = length checks
     \<and> (\<forall>k<length checks.
           length (news ! k) = length (code_list (checks ! k))
           \<and> (\<forall>i<length (code_list (checks ! k)).
                 (if repair_prompt self fp (checks ! k) i = PStr [] \<or>
                     \<not> is_list (repair_prompt self fp (checks ! k) i)
                  then i < length (output_list (checks ! k))
                       \<and> news ! k ! i = VStr (output_list (checks ! k) ! i)
                  else \<exists>r. fst (cm (repair_prompt self fp (checks ! k) i)
                                  (attempt_state self cm fp checks w k i)) = Inr r
                           \<and> news ! k ! i = VList r)))
     \<and> w' = fold (\<lambda>p s. snd (cm p s)) (repair_prompts self fp checks) w"
proof (induction checks arbitrary: outputs w)
  case Nil
  then show ?case by (simp add: repair_prompts_def)
next
  case (Cons chk checks)
  let ?js = "[0 ..< length (code_list chk)]"
  let ?step = "\<lambda>p s. snd (cm p s)"
  obtain x w1 where ra: "repair_attempts self cm fp chk ?js [] w = (x, w1)"
    by (cases "repair_attempts self cm fp chk ?js [] w")
  from Cons.prems ra obtain out where x: "x = Inr out"
    and rec: "repair_checks self cm fp checks (outputs @ [out]) w1 = (Inr outs, w')"
    by (cases x) auto
  from repair_attempts_returns[OF ra[unfolded x]] obtain new
    where new: "out = [] @ new" "length new = length ?js"
      "\<forall>j<length ?js.
           (if repair_prompt self fp chk (?js ! j) = PStr [] \<or>
               \<not> is_list (repair_prompt self fp chk (?js ! j))
            then ?js ! j < length (output_list chk)
                 \<and> new ! j = VStr (output_list chk ! (?js ! j))
            else \<exists>r. fst (cm (repair_prompt self fp chk (?js ! j))
                            (fold ?step
                               (filter is_list (map (repair_prompt self fp chk) (take j ?js)))
                               w)) = Inr r
                     \<and> new ! j = VList r)"
      "w1 = fold ?step (filter is_list (map (repair_prompt self fp chk) ?js)) w"
    by blast
  have out: "out = new" using new(1) by simp
  have lo: "length out = length (code_list chk)" using new(2) out by simp
  have el: "\<forall>i<length (code_list chk).
           (if repair_prompt self fp chk i = PStr [] \<or> \<not> is_list (repair_prompt self fp chk i)
            then i < length (output_list chk) \<and> out ! i = VStr (output_list chk ! i)
            else \<exists>r. fst (cm (repair_prompt self fp chk i)
                            (attempt_state self cm fp (chk # checks) w 0 i)) = Inr r
                     \<and> out ! i = VList r)"
  proof (intro allI impI)
    fix i assume i: "i < length (code_list chk)"
    then have l: "i < length ?js" by simp
    have t: "take i ?js = [0 ..< i]" using i by (simp add: take_upt)
    have st: "attempt_state self cm fp (chk # checks) w 0 i =
                fold ?step (filter is_list (map (repair_prompt self fp chk) [0 ..< i])) w"
      by (simp add: attempt_state_def repair_prompts_def)
    from new(3)[rule_format, OF l] i out show
      "if repair_prompt self fp chk i = PStr [] \<or> \<not> is_list (repair_prompt self fp chk i)
       then i < length (output_list chk) \<and> out ! i = VStr (output_list chk ! i)
       else \<exists>r. fst (cm (repair_prompt self fp chk i)
                       (attempt_state self cm fp (chk # checks) w 0 i)) = Inr r
                \<and> out ! i = VList r"
      unfolding t st by (auto split: if_splits)
  qed
  from Cons.IH[OF rec] obtain news
    where news: "outs = (outputs @ [out]) @ news" "length news = length checks"
      "\<forall>k<length checks.
           length (news ! k) = length (code_list (checks ! k))
           \<and> (\<forall>i<length (code_list (checks ! k)).
                 (if repair_prompt self fp (checks ! k) i = PStr [] \<or>
                     \<not> is_list (repair_prompt self fp (checks ! k) i)
                  then i < length (output_list (checks ! k))
                       \<and> news ! k ! i = VStr (output_list (checks ! k) ! i)
                  else \<exists>r. fst (cm (repair_prompt self fp (checks ! k) i)
                                  (attempt_state self cm fp checks w1 k i)) = Inr r
                           \<and> news ! k ! i = VList r))"
      "w' = fold ?step (repair_prompts self fp checks) w1"
    by blast
  have shift: "attempt_state self cm fp (chk # checks) w (Suc k) i =
                 attempt_state self cm fp checks w1 k i" for k i
    by (simp add: attempt_state_def repair_prompts_def new(4))
  show ?case
  proof (intro exI[of _ "out # news"] conjI allI impI)
    show "outs = outputs @ out # news" using news(1) by simp
    show "length (out # news) = length (chk # checks)" using news(2) by simp
    show "w' = fold ?step (repair_prompts self fp (chk # checks)) w"
      using news(4) new(4) by (simp add: repair_prompts_def)
  next
    fix k assume k: "k < length (chk # checks)"
    show "length ((out # news) ! k) = length (code_list ((chk # checks) ! k))"
    proof (cases k)
      case 0
      with lo show ?thesis by simp
    next
      case (Suc k')
      with k have "k' < length checks" by simp
      from news(3)[rule_format, OF this] Suc show ?thesis by simp
    qed
  next
    fix k i assume k: "k < length (chk # checks)"
      and i: "i < length (code_list ((chk # checks) ! k))"
    show "if repair_prompt self fp ((chk # checks) ! k) i = PStr [] \<or>
             \<not> is_list (repair_prompt self fp ((chk # checks) ! k) i)
          then i < length (output_list ((chk # checks) ! k))
               \<and> (out # news) ! k ! i = VStr (output_list ((chk # checks) ! k) ! i)
          else \<exists>r. fst (cm (repair_prompt self fp ((chk # checks) ! k) i)
                          (attempt_state self cm fp (chk # checks) w k i)) = Inr r
                   \<and> (out # news) ! k ! i = VList r"
    proof (cases k)
      case 0
      with i have "i < length (code_list chk)" by simp
      from el[rule_format, OF this] 0 show ?thesis by (auto split: if_splits)
    next
      case (Suc k')
      with k have k': "k' < length checks" by simp
      from i Suc have "i < length (code_list (checks ! k'))" by simp
      with news(3)[rule_format, OF k'] Suc show ?thesis
        by (auto simp: shift split: if_splits)
    qed
  qed
qed

lemma repair_attempts_total:
  assumes tot: "\<forall>p s. \<exists>r s'. cm p s = (Inr r, s')"
    and al: "length (output_list chk) = length (code_list chk)"
            "length (graded_list chk) = length (code_list chk)"
            "length (metadata chk) = length (code_list chk)"
  shows "\<forall>i \<in> set js. i < length (code_list chk) \<Longrightarrow>
         \<exists>out w'. repair_attempts self cm fp chk js acc w = (Inr out, w')"
proof (induction js arbitrary: acc w)
  case Nil
  then show ?case by simp
next
  case (Cons i js)
  then have i: "i < length (code_list chk)" and js: "\<forall>i \<in> set js. i < length (code_list chk)"
    by simp_all
  let ?p = "repair_prompt self fp chk i"
  show ?case
  proof (cases "?p = PStr [] \<or> \<not> is_list ?p")
    case True
    from Cons.IH[OF js, of "acc @ [VStr (output_list chk ! i)]" w] True i al
    show ?thesis by (simp add: repair_prompt_def Let_def)
  next
    case False
    from tot obtain r s' where cm: "cm ?p w = (Inr r, s')" by blast
    from Cons.IH[OF js, of "acc @ [VList r]" s'] False i al cm
    show ?thesis by (simp add: repair_prompt_def Let_def)
  qed
qed

lemma repair_checks_total:
  assumes tot: "\<forall>p s. \<exists>r s'. cm p s = (Inr r, s')"
  shows "\<forall>chk \<in> set checks.
            length (output_list chk) = length (code_list chk)
          \<and> length (graded_list chk) = length (code_list chk)
          \<and> length (metadata chk) = length (code_list chk) \<Longrightarrow>
         \<exists>outs w'. repair_checks self cm fp checks outputs w = (Inr outs, w')"
proof (induction checks arbitrary: outputs w)
  case Nil
  then show ?case by simp
next
  case (Cons chk checks)
  then have al: "length (output_list chk) = length (code_list chk)"
            "length (graded_list chk) = length (code_list chk)"
            "length (metadata chk) = length (code_list chk)"
    and rest: "\<forall>chk \<in> set checks.
            length (output_list chk) = length (code_list chk)
          \<and> length (graded_list chk) = length (code_list chk)
          \<and> length (metadata chk) = length (code_list chk)"
    by simp_all
  have "\<forall>i \<in> set [0 ..< length (code_list chk)]. i < length (code_list chk)" by simp
  from repair_attempts_total[OF tot al this, of self fp "[]" w]
  obtain out w1 where ra: "repair_attempts self cm fp chk [0 ..< length (code_list chk)] [] w
                            = (Inr out, w1)" by blast
  from Cons.IH[OF rest, of "outputs @ [out]" w1] ra show ?case by simp
qed

lemma repair_attempts_cache:
  "repair_attempts (self\<lparr>cache := c\<rparr>) cm fp chk js acc w = repair_attempts self cm fp chk js acc w"
  by (induction js arbitrary: acc w) (simp_all add: Let_def split: prod.splits sum.splits)

lemma repair_checks_cache:
  "repair_checks (self\<lparr>cache := c\<rparr>) cm fp checks outputs w =
   repair_checks self cm fp checks outputs w"
  by (induction checks arbitrary: outputs w)
     (simp_all add: repair_attempts_cache split: prod.splits sum.splits)

text \<open>
  Claim C8. In the self-repair scenario, whenever \<^verbatim>\<open>run_main\<close> returns, its result has
  one output sequence per record of the graded file and each sequence has one element per
  prior attempt: the stored prior output, verbatim, exactly when the repair prompt built
  for the attempt is the empty string or is not a list, and otherwise the result of the
  call of the worker on that repair prompt, made in the state that the calls for the
  earlier structured repair prompts have left. So the worker is called for the structured
  repair prompts one after the other, in the order of the records and of their attempts,
  and its final state is the one these calls leave. The runner and its cache and the
  persisted cache file are as they were, nothing is printed, and the run does not depend
  on the cache. When the worker never raises and the lists of every record are aligned,
  \<^verbatim>\<open>run_main\<close> does return.
\<close>

theorem selfrepair_replay:
  assumes sel: "scenario (args self) = selfrepair"
  shows
    "(run_main self cm fp benchmark (Some checks) w d = (Inr res, self', w', d', printed) \<longrightarrow>
        (\<exists>outs. res = Repaired outs \<and> length outs = length checks
           \<and> (\<forall>k<length checks.
                 length (outs ! k) = length (code_list (checks ! k))
                 \<and> (\<forall>i<length (code_list (checks ! k)).
                       (if repair_prompt self fp (checks ! k) i = PStr [] \<or>
                           \<not> is_list (repair_prompt self fp (checks ! k) i)
                        then outs ! k ! i = VStr (output_list (checks ! k) ! i)
                        else \<exists>r. fst (cm (repair_prompt self fp (checks ! k) i)
                                        (attempt_state self cm fp checks w k i)) = Inr r
                                 \<and> outs ! k ! i = VList r))))
        \<and> w' = fold (\<lambda>p s. snd (cm p s)) (repair_prompts self fp checks) w
        \<and> self' = self \<and> d' = d \<and> printed = []) \<and>
     ((\<forall>p s. \<exists>r s'. cm p s = (Inr r, s'))
        \<and> (\<forall>chk \<in> set checks.
              length (output_list chk) = length (code_list chk)
            \<and> length (graded_list chk) = length (code_list chk)
            \<and> length (metadata chk) = length (code_list chk)) \<longrightarrow>
        (\<exists>outs w'. run_main self cm fp benchmark (Some checks) w d =
                      (Inr (Repaired outs), self, w', d, []))) \<and>
     run_main (self\<lparr>cache := c\<rparr>) cm fp benchmark (Some checks) w d =
       (case run_main self cm fp benchmark (Some checks) w d of
          (r, s, rest) \<Rightarrow> (r, s\<lparr>cache := c\<rparr>, rest))"
proof (intro conjI impI)
  assume rm: "run_main self cm fp benchmark (Some checks) w d = (Inr res, self', w', d', printed)"
  obtain x w1 where rc: "repair_checks self cm fp checks [] w = (x, w1)"
    by (cases "repair_checks self cm fp checks [] w")
  from rm sel rc obtain outs where x: "x = Inr outs" and res: "res = Repaired outs"
    and fr: "self' = self" "w' = w1" "d' = d" "printed = []"
    by (cases x) (auto simp: run_main_def)
  from repair_checks_returns[OF rc[unfolded x]] obtain news
    where news: "outs = [] @ news" "length news = length checks"
      "\<forall>k<length checks.
           length (news ! k) = length (code_list (checks ! k))
           \<and> (\<forall>i<length (code_list (checks ! k)).
                 (if repair_prompt self fp (checks ! k) i = PStr [] \<or>
                     \<not> is_list (repair_prompt self fp (checks ! k) i)
                  then i < length (output_list (checks ! k))
                       \<and> news ! k ! i = VStr (output_list (checks ! k) ! i)
                  else \<exists>r. fst (cm (repair_prompt self fp (checks ! k) i)
                                  (attempt_state self cm fp checks w k i)) = Inr r
                           \<and> news ! k ! i = VList r))"
      "w1 = fold (\<lambda>p s. snd (cm p s)) (repair_prompts self fp checks) w"
    by blast
  have eq: "news = outs" using news(1) by simp
  show "\<exists>outs. res = Repaired outs \<and> length outs = length checks
           \<and> (\<forall>k<length checks.
                 length (outs ! k) = length (code_list (checks ! k))
                 \<and> (\<forall>i<length (code_list (checks ! k)).
                       (if repair_prompt self fp (checks ! k) i = PStr [] \<or>
                           \<not> is_list (repair_prompt self fp (checks ! k) i)
                        then outs ! k ! i = VStr (output_list (checks ! k) ! i)
                        else \<exists>r. fst (cm (repair_prompt self fp (checks ! k) i)
                                        (attempt_state self cm fp checks w k i)) = Inr r
                                 \<and> outs ! k ! i = VList r)))"
  proof (intro exI[of _ outs] conjI allI impI)
    show "res = Repaired outs" by (rule res)
    show "length outs = length checks" using news(2) eq by simp
  next
    fix k assume k: "k < length checks"
    from news(3)[rule_format, OF k] eq
    show "length (outs ! k) = length (code_list (checks ! k))" by simp
  next
    fix k i assume k: "k < length checks" and i: "i < length (code_list (checks ! k))"
    from news(3)[rule_format, OF k] eq i
    show "if repair_prompt self fp (checks ! k) i = PStr [] \<or>
             \<not> is_list (repair_prompt self fp (checks ! k) i)
          then outs ! k ! i = VStr (output_list (checks ! k) ! i)
          else \<exists>r. fst (cm (repair_prompt self fp (checks ! k) i)
                          (attempt_state self cm fp checks w k i)) = Inr r
                   \<and> outs ! k ! i = VList r"
      by (auto split: if_splits)
  qed
  show "w' = fold (\<lambda>p s. snd (cm p s)) (repair_prompts self fp checks) w"
    using fr(2) news(4) by simp
  show "self' = self" by (rule fr(1))
  show "d' = d" by (rule fr(3))
  show "printed = []" by (rule fr(4))
next
  assume a: "(\<forall>p s. \<exists>r s'. cm p s = (Inr r, s'))
        \<and> (\<forall>chk \<in> set checks.
              length (output_list chk) = length (code_list chk)
            \<and> length (graded_list chk) = length (code_list chk)
            \<and> length (metadata chk) = length (code_list chk))"
  then have tot: "\<forall>p s. \<exists>r s'. cm p s = (Inr r, s')"
    and al: "\<forall>chk \<in> set checks.
              length (output_list chk) = length (code_list chk)
            \<and> length (graded_list chk) = length (code_list chk)
            \<and> length (metadata chk) = length (code_list chk)"
    by simp_all
  from repair_checks_total[OF tot al, of self fp "[]" w]
  obtain outs w1 where "repair_checks self cm fp checks [] w = (Inr outs, w1)" by blast
  with sel have "run_main self cm fp benchmark (Some checks) w d =
                   (Inr (Repaired outs), self, w1, d, [])"
    by (simp add: run_main_def)
  then show "\<exists>outs w'. run_main self cm fp benchmark (Some checks) w d =
                      (Inr (Repaired outs), self, w', d, [])" by blast
next
  show "run_main (self\<lparr>cache := c\<rparr>) cm fp benchmark (Some checks) w d =
       (case run_main self cm fp benchmark (Some checks) w d of
          (r, s, rest) \<Rightarrow> (r, s\<lparr>cache := c\<rparr>, rest))"
    using sel by (simp add: run_main_def repair_checks_cache split: prod.splits sum.splits)
qed

theorem selfrepair_replay_witness:
  "scenario (args (init (example_args 1 True\<lparr>scenario := selfrepair\<rparr>) example_model None)) =
     selfrepair
   \<and> repair_prompt (init (example_args 1 True\<lparr>scenario := selfrepair\<rparr>) example_model None)
        repair_format example_check 0 = task_A
   \<and> repair_prompt (init (example_args 1 True\<lparr>scenario := selfrepair\<rparr>) example_model None)
        repair_format example_check 1 = PStr []
   \<and> repair_prompt (init (example_args 1 True\<lparr>scenario := selfrepair\<rparr>) example_model None)
        repair_format example_check 2 = task_A
   \<and> is_list task_A
   \<and> attempt_state (init (example_args 1 True\<lparr>scenario := selfrepair\<rparr>) example_model None)
        sampling_worker repair_format [example_check] 0 0 0 = 0
   \<and> attempt_state (init (example_args 1 True\<lparr>scenario := selfrepair\<rparr>) example_model None)
        sampling_worker repair_format [example_check] 0 0 2 = 1
   \<and> sampling_worker task_A 0 = (Inr [''x1'', ''x2''], 1)
   \<and> sampling_worker task_A 1 = (Inr [''y1'', ''y2''], 2)
   \<and> run_main (init (example_args 1 True\<lparr>scenario := selfrepair\<rparr>) example_model None)
        sampling_worker repair_format [] (Some [example_check]) 0 None =
       (Inr (Repaired [[VList [''x1'', ''x2''], VStr ''o1'', VList [''y1'', ''y2'']]]),
        init (example_args 1 True\<lparr>scenario := selfrepair\<rparr>) example_model None, 2, None, [])
   \<and> run_main
        ((init (example_args 1 True\<lparr>scenario := selfrepair\<rparr>) example_model None)
           \<lparr>cache := Some [(json_dumps messages_A, VList [''c1'', ''c2''])]\<rparr>)
        sampling_worker repair_format [] (Some [example_check]) 0 None =
       (Inr (Repaired [[VList [''x1'', ''x2''], VStr ''o1'', VList [''y1'', ''y2'']]]),
        (init (example_args 1 True\<lparr>scenario := selfrepair\<rparr>) example_model None)
           \<lparr>cache := Some [(json_dumps messages_A, VList [''c1'', ''c2''])]\<rparr>, 2, None, [])"
  using selfrepair_replay[where
          self = "init (example_args 1 True\<lparr>scenario := selfrepair\<rparr>) example_model None"
          and cm = sampling_worker and fp = repair_format and benchmark = "[]"
          and checks = "[example_check]" and w = 0 and d = None
          and c = "Some [(json_dumps messages_A, VList [''c1'', ''c2''])]"]
  by (simp add: run_main_def repair_prompt_def repair_prompts_def attempt_state_def
        repair_format_def example_check_def example_defs eval_nat_numeral)

end
